(* ===== verification/Prelude.thy ===== *)
theory Prelude
  imports Main "HOL-Library.Word"
begin

text \<open>
  Shared vocabulary of the SIMJI development: the machine-word type of the simulator,
  error propagation through sum types (the model of Rust's panics and early exits), and
  the generic bit-field lemmas that the encoder and decoder proofs are built from.
  Nothing here models a line of the repository; the component theories do.
\<close>

unbundle bit_operations_syntax

named_theorems bitfield "facts reading a field out of a packed 32-bit instruction word"
named_theorems sum_simps "rewriting of computations that propagate an error value"

type_synonym u32 = "32 word"

section \<open>Error propagation\<close>

text \<open>
  A Rust function that may panic or exit is modelled as a function into \<open>'e + 'a\<close>:
  \<open>Inl\<close> is the failure, \<open>Inr\<close> the normal result. \<open>sbind\<close> sequences two such
  computations and stops at the first failure, as unwinding does.
\<close>

definition sbind :: "'e + 'a \<Rightarrow> ('a \<Rightarrow> 'e + 'b) \<Rightarrow> 'e + 'b" where
  "sbind m f = (case m of Inl e \<Rightarrow> Inl e | Inr a \<Rightarrow> f a)"

definition smap_err :: "('e \<Rightarrow> 'f) \<Rightarrow> 'e + 'a \<Rightarrow> 'f + 'a" where
  "smap_err g m = (case m of Inl e \<Rightarrow> Inl (g e) | Inr a \<Rightarrow> Inr a)"

lemma sbind_Inl [simp, sum_simps]: "sbind (Inl e) f = Inl e"
  by (simp add: sbind_def)

lemma sbind_Inr [simp, sum_simps]: "sbind (Inr a) f = f a"
  by (simp add: sbind_def)

lemma smap_err_simps [simp, sum_simps]:
  "smap_err g (Inl e) = Inl (g e)" "smap_err g (Inr a) = Inr a"
  by (simp_all add: smap_err_def)

lemma sbind_eq_Inr [sum_simps]:
  "sbind m f = Inr y \<longleftrightarrow> (\<exists>a. m = Inr a \<and> f a = Inr y)"
  by (cases m) simp_all

lemma sbind_eq_Inl [sum_simps]:
  "sbind m f = Inl e \<longleftrightarrow> m = Inl e \<or> (\<exists>a. m = Inr a \<and> f a = Inl e)"
  by (cases m) simp_all

lemma smap_err_eq_Inr [sum_simps]: "smap_err g m = Inr y \<longleftrightarrow> m = Inr y"
  by (cases m) simp_all

lemma sbind_cong_Inr:
  "m = Inr a \<Longrightarrow> sbind m f = f a"
  by simp

section \<open>Bit fields of a word\<close>

text \<open>
  Reading a field: masking with \<open>m\<close> ones at position \<open>k\<close> and shifting right by
  \<open>k\<close> is taking the low \<open>m\<close> bits of the word shifted right by \<open>k\<close>.
\<close>

lemma field_extract [bitfield]:
  "drop_bit k (w AND push_bit k (mask m)) = take_bit m (drop_bit k (w :: 'a::len word))"
  by (rule bit_word_eqI) (auto simp: bit_simps dest: bit_imp_le_length)

lemma unat_u32_less: "unat (x :: u32) < 2 ^ 32"
  using unsigned_less [of x, where 'a = nat] by simp

lemma take_bit_fits: "(x :: 'a::len word) < 2 ^ n \<Longrightarrow> take_bit n x = x"
  by (simp add: less_mask_eq take_bit_eq_mask)

lemma no_bit_above: "(x :: 'a::len word) < 2 ^ n \<Longrightarrow> n \<le> k \<Longrightarrow> bit x k = False"
  by (metis less_mask_eq bit_and_iff bit_mask_iff not_le)

lemma bit_below: "(x :: 'a::len word) < 2 ^ n \<Longrightarrow> bit x k \<Longrightarrow> k < n"
  using no_bit_above [of x n k] by (cases "n \<le> k") auto

lemma of_bool_bit0: "(x :: 'a::len word) < 2 \<Longrightarrow> of_bool (bit x 0) = x"
  by (rule bit_word_eqI) (auto simp: bit_simps dest: bit_below [of x 1, simplified])

lemma of_bool_mod2: "(of_bool b :: 'a::len word) mod 2 = of_bool b"
  by (cases b) simp_all

lemma bit_push_bit_of_bool_bit:
  "bit (push_bit k (of_bool (bit w k)) :: 'a::len word) n \<longleftrightarrow> bit (w :: 'a word) n \<and> n = k"
  by (auto simp: bit_simps dest: bit_imp_le_length)

lemma word_mod2_small: "(x :: 'a::len word) < 2 \<Longrightarrow> x mod 2 = x"
  by (metis take_bit_eq_mod take_bit_fits power_one_right)

text \<open>
  A slice of a shifted field: the field itself when the slice is the field's place,
  nothing when the slice lies wholly above or below it.
\<close>

lemma slice_same:
  "(x :: 'a::len word) < 2 ^ m \<Longrightarrow> k + m \<le> LENGTH('a) \<Longrightarrow>
   take_bit m (drop_bit k (push_bit k x)) = x"
  by (rule bit_word_eqI) (auto simp: bit_simps dest: bit_below)

lemma slice_above:
  "k + m \<le> j \<Longrightarrow> take_bit m (drop_bit k (push_bit j (x :: 'a::len word))) = 0"
  by (rule bit_word_eqI) (auto simp: bit_simps)

lemma slice_below:
  "(x :: 'a::len word) < 2 ^ w \<Longrightarrow> j + w \<le> k \<Longrightarrow> take_bit m (drop_bit k (push_bit j x)) = 0"
  by (rule bit_word_eqI) (auto simp: bit_simps dest: bit_below)

lemma slice_below0:
  "(x :: 'a::len word) < 2 ^ w \<Longrightarrow> w \<le> k \<Longrightarrow> take_bit m (drop_bit k x) = 0"
  using slice_below [of x w 0 k m] by simp

text \<open>
  Writing fields: adding a value whose bits all lie below position \<open>k\<close> to a word
  whose low \<open>k\<close> bits are clear has no carry, so it is a bitwise or, and it cannot
  overflow. The encoder builds every instruction word by such additions.
\<close>

lemma add_as_or:
  assumes "take_bit k a = 0" and "take_bit k b = b"
  shows "a + b = a OR (b :: 'a::len word)"
proof (rule disjunctive_add)
  fix n
  show "\<not> bit a n \<or> \<not> bit b n"
    using bit_take_bit_iff [of k a n] bit_take_bit_iff [of k b n] assms by auto
qed

lemma add_as_or_no_overflow:
  fixes a b :: "'a::len word"
  assumes "take_bit k a = 0" and "take_bit k b = b"
  shows "unat a + unat b < 2 ^ LENGTH('a)"
proof -
  have "a \<le> a + b"
    using add_as_or [OF assms] by (simp add: le_word_or2)
  then show ?thesis
    by (simp add: no_plus_overflow_unat_size word_size)
qed

end
