(* ===== verification/Rust_Std.thy ===== *)
theory Rust_Std
  imports Prelude
begin

text \<open>
  The parts of Rust and its standard library that the SIMJI sources call, given the
  meaning rustc and std give them: \<open>u32\<close> arithmetic with and without overflow checks,
  bounds-checked indexing of arrays and vectors, and the \<open>str\<close> operations
  \<open>trim\<close>, \<open>split\<close> and \<open>parse::<u32>\<close>. These definitions model no line of the
  repository; the repository's functions are built from them.

  Strings are byte lists. Every character the sources test or remove (\<open>:\<close>, \<open>;\<close>,
  \<open>r\<close>, \<open>,\<close>, space, newline, digits) is ASCII, and UTF-8 never uses an ASCII byte
  inside a multi-byte character, so \<open>chars().last()\<close>, \<open>pop()\<close>, \<open>split\<close> and
  \<open>skip(1)\<close> after an ASCII \<open>r\<close> agree with their byte-level models on every input.
  The one difference is \<open>trim\<close>: the model strips ASCII whitespace only, Rust also
  strips non-ASCII white space such as U+00A0.
\<close>

unbundle bit_operations_syntax

section \<open>Panics and build profiles\<close>

text \<open>
  Arithmetic overflow panics when the crate is built with overflow checks (the default
  \<open>dev\<close> profile of \<open>cargo build\<close>/\<open>cargo run\<close>) and wraps around without them (the
  \<open>release\<close> profile). Division by zero and out-of-bounds indexing panic in both.
\<close>

datatype profile = Debug | Release

datatype rust_panic =
    AddOverflow
  | SubOverflow
  | MulOverflow
  | DivByZero
  | ShlOverflow
  | ShrOverflow
  | IndexOutOfBounds nat nat  \<comment> \<open>the length, then the index\<close>
  | UnwrapNone

section \<open>\<open>u32\<close> arithmetic\<close>

definition add_u32 :: "profile \<Rightarrow> u32 \<Rightarrow> u32 \<Rightarrow> rust_panic + u32" where
  "add_u32 p x y =
     (if p = Debug \<and> 2 ^ 32 \<le> unat x + unat y then Inl AddOverflow else Inr (x + y))"

definition sub_u32 :: "profile \<Rightarrow> u32 \<Rightarrow> u32 \<Rightarrow> rust_panic + u32" where
  "sub_u32 p x y = (if p = Debug \<and> x < y then Inl SubOverflow else Inr (x - y))"

definition mul_u32 :: "profile \<Rightarrow> u32 \<Rightarrow> u32 \<Rightarrow> rust_panic + u32" where
  "mul_u32 p x y =
     (if p = Debug \<and> 2 ^ 32 \<le> unat x * unat y then Inl MulOverflow else Inr (x * y))"

definition div_u32 :: "u32 \<Rightarrow> u32 \<Rightarrow> rust_panic + u32" where
  "div_u32 x y = (if y = 0 then Inl DivByZero else Inr (x div y))"

text \<open>
  A shift by 32 or more panics with overflow checks; without them the shift amount is
  taken modulo 32 (\<open>wrapping_shl\<close>).
\<close>

definition shl_u32 :: "profile \<Rightarrow> u32 \<Rightarrow> u32 \<Rightarrow> rust_panic + u32" where
  "shl_u32 p x y =
     (if p = Debug \<and> 32 \<le> y then Inl ShlOverflow else Inr (push_bit (unat (y AND 31)) x))"

definition shr_u32 :: "profile \<Rightarrow> u32 \<Rightarrow> u32 \<Rightarrow> rust_panic + u32" where
  "shr_u32 p x y =
     (if p = Debug \<and> 32 \<le> y then Inl ShrOverflow else Inr (drop_bit (unat (y AND 31)) x))"

section \<open>Indexing\<close>

text \<open>\<open>v[i]\<close> on an array or a vector, read and write, with Rust's bounds check.\<close>

definition slice_get :: "'a list \<Rightarrow> nat \<Rightarrow> rust_panic + 'a" where
  "slice_get xs i = (if i < length xs then Inr (xs ! i) else Inl (IndexOutOfBounds (length xs) i))"

definition slice_set :: "'a list \<Rightarrow> nat \<Rightarrow> 'a \<Rightarrow> rust_panic + 'a list" where
  "slice_set xs i v =
     (if i < length xs then Inr (xs[i := v]) else Inl (IndexOutOfBounds (length xs) i))"

section \<open>Strings\<close>

text \<open>\<open>char::is_whitespace\<close> on ASCII: tab, line feed, vertical tab, form feed,
  carriage return and space.\<close>

definition is_ws :: "char \<Rightarrow> bool" where
  "is_ws c = (let n = of_char c :: nat in n = 32 \<or> (9 \<le> n \<and> n \<le> 13))"

definition trim :: "string \<Rightarrow> string" where
  "trim s = rev (dropWhile is_ws (rev (dropWhile is_ws s)))"

text \<open>\<open>s.split(c)\<close> for a one-character pattern: the pieces between the separators,
  always at least one (the empty string splits into one empty piece).\<close>

fun split_on :: "char \<Rightarrow> string \<Rightarrow> string list" where
  "split_on c [] = [[]]"
| "split_on c (x # xs) =
     (if x = c then [] # split_on c xs
      else (case split_on c xs of [] \<Rightarrow> [[x]] | p # ps \<Rightarrow> (x # p) # ps))"

text \<open>\<open>slice.join(sep)\<close> on strings: the pieces with \<open>sep\<close> between each two.\<close>

fun join :: "string \<Rightarrow> string list \<Rightarrow> string" where
  "join sep [] = []"
| "join sep [x] = x"
| "join sep (x # y # zs) = x @ sep @ join sep (y # zs)"

definition is_digit :: "char \<Rightarrow> bool" where
  "is_digit c = (let n = of_char c :: nat in 48 \<le> n \<and> n \<le> 57)"

definition digit_val :: "char \<Rightarrow> nat" where
  "digit_val c = of_char c - 48"

definition digits_value :: "string \<Rightarrow> nat" where
  "digits_value ds = foldl (\<lambda>acc c. 10 * acc + digit_val c) 0 ds"

text \<open>
  \<open>u32::from_str\<close>: an optional leading \<open>+\<close> (a lone sign is an error, and \<open>-\<close>
  is an invalid digit for an unsigned type), then one or more decimal digits whose value
  is below \<open>2^32\<close>; \<open>None\<close> is the \<open>Err\<close> of the source.
\<close>

definition parse_u32 :: "string \<Rightarrow> u32 option" where
  "parse_u32 s =
     (let ds = (case s of [] \<Rightarrow> [] | c # t \<Rightarrow> if c = CHR ''+'' then t else s)
      in if ds \<noteq> [] \<and> list_all is_digit ds \<and> digits_value ds < 2 ^ 32
         then Some (of_nat (digits_value ds)) else None)"

text \<open>\<open>s.chars().next()\<close>, \<open>s.chars().last()\<close> and \<open>Option::unwrap\<close>, which panics
  on \<open>None\<close>.\<close>

definition str_first :: "string \<Rightarrow> char option" where
  "str_first s = (case s of [] \<Rightarrow> None | c # _ \<Rightarrow> Some c)"

definition str_last :: "string \<Rightarrow> char option" where
  "str_last s = (if s = [] then None else Some (last s))"

definition unwrap :: "'a option \<Rightarrow> rust_panic + 'a" where
  "unwrap x = (case x of None \<Rightarrow> Inl UnwrapNone | Some v \<Rightarrow> Inr v)"

text \<open>\<open>n.to_string()\<close> for an unsigned number: its decimal digits, no sign, no leading
  zero. Used to state what the parsers accept.\<close>

definition digit_char :: "nat \<Rightarrow> char" where
  "digit_char d = char_of (48 + d)"

fun dec_string :: "nat \<Rightarrow> string" where
  "dec_string n = (if n < 10 then [digit_char n] else dec_string (n div 10) @ [digit_char (n mod 10)])"

declare dec_string.simps [simp del]

section \<open>Facts about the arithmetic\<close>

lemmas u32_op_defs = add_u32_def sub_u32_def mul_u32_def div_u32_def shl_u32_def shr_u32_def

lemma add_u32_Release [simp]: "add_u32 Release x y = Inr (x + y)"
  by (simp add: add_u32_def)

lemma add_u32_no_overflow:
  "unat x + unat y < 2 ^ 32 \<Longrightarrow> add_u32 p x y = Inr (x + y)"
  by (simp add: add_u32_def)

lemma add_u32_Inr_unat:
  "add_u32 Debug x y = Inr z \<Longrightarrow> unat z = unat x + unat y"
  by (auto simp: add_u32_def unat_add_lem [symmetric] split: if_splits)

lemma add_u32_Inr: "add_u32 p x y = Inr z \<Longrightarrow> z = x + y"
  by (simp add: add_u32_def split: if_splits)

lemma sub_u32_Inr_unat: "sub_u32 Debug x y = Inr z \<Longrightarrow> unat z + unat y = unat x"
  by (auto simp: sub_u32_def unat_sub not_less word_le_nat_alt split: if_splits)

lemma mul_u32_Inr_unat: "mul_u32 Debug x y = Inr z \<Longrightarrow> unat z = unat x * unat y"
  by (auto simp: mul_u32_def unat_mult_lem [symmetric] split: if_splits)

text \<open>A debug build computes what a release build computes, or panics.\<close>

lemma ops_Debug_Release:
  "add_u32 Debug x y = Inr v \<Longrightarrow> add_u32 Release x y = Inr v"
  "sub_u32 Debug x y = Inr v \<Longrightarrow> sub_u32 Release x y = Inr v"
  "mul_u32 Debug x y = Inr v \<Longrightarrow> mul_u32 Release x y = Inr v"
  "shl_u32 Debug x y = Inr v \<Longrightarrow> shl_u32 Release x y = Inr v"
  "shr_u32 Debug x y = Inr v \<Longrightarrow> shr_u32 Release x y = Inr v"
  by (simp_all add: u32_op_defs split: if_split_asm)

section \<open>Facts about indexing\<close>

lemma slice_get_Inr [simp]: "i < length xs \<Longrightarrow> slice_get xs i = Inr (xs ! i)"
  by (simp add: slice_get_def)

lemma slice_set_Inr [simp]: "i < length xs \<Longrightarrow> slice_set xs i v = Inr (xs[i := v])"
  by (simp add: slice_set_def)

lemma slice_get_eq_Inr: "slice_get xs i = Inr v \<longleftrightarrow> i < length xs \<and> v = xs ! i"
  by (auto simp: slice_get_def)

lemma slice_set_eq_Inr: "slice_set xs i v = Inr ys \<longleftrightarrow> i < length xs \<and> ys = xs[i := v]"
  by (auto simp: slice_set_def)

lemma slice_set_length: "slice_set xs i v = Inr ys \<Longrightarrow> length ys = length xs"
  by (auto simp: slice_set_eq_Inr)

section \<open>Facts about strings\<close>

lemma split_on_not_Nil [simp]: "split_on c s \<noteq> []"
  by (induction s) (auto split: list.split)

lemma split_on_hd_Cons:
  "x \<noteq> c \<Longrightarrow> hd (split_on c (x # xs)) = x # hd (split_on c xs)"
  by (auto split: list.split)

lemma split_on_pieces: "p \<in> set (split_on c s) \<Longrightarrow> c \<notin> set p"
proof (induction s arbitrary: p)
  case Nil
  then show ?case by simp
next
  case (Cons x xs)
  then show ?case
    by (auto split: if_splits list.splits)
qed

lemma set_trim: "set (trim s) \<subseteq> set s"
  by (auto simp: trim_def dest!: set_dropWhileD)

lemma trim_Cons_not_ws: "\<not> is_ws x \<Longrightarrow> trim (x # xs) \<noteq> []"
  by (simp add: trim_def)

lemma dropWhile_ws_trim:
  "dropWhile is_ws s = trim s @ rev (takeWhile is_ws (rev (dropWhile is_ws s)))"
proof -
  let ?r = "rev (dropWhile is_ws s)"
  have "rev (takeWhile is_ws ?r @ dropWhile is_ws ?r) = dropWhile is_ws s"
    by (simp only: takeWhile_dropWhile_id rev_rev_ident)
  then show ?thesis unfolding trim_def rev_append by (rule sym)
qed

lemma trim_hd_not_ws: "trim s \<noteq> [] \<Longrightarrow> \<not> is_ws (hd (trim s))"
proof -
  assume ne: "trim s \<noteq> []"
  then have "hd (dropWhile is_ws s) = hd (trim s)" and "dropWhile is_ws s \<noteq> []"
    by (subst dropWhile_ws_trim, simp)+
  then show ?thesis by (metis hd_dropWhile)
qed

lemma digit_char_simps [simp]:
  "digit_char 0 = CHR ''0''" "digit_char 1 = CHR ''1''" "digit_char (Suc 0) = CHR ''1''" "digit_char 2 = CHR ''2''"
  "digit_char 3 = CHR ''3''" "digit_char 4 = CHR ''4''" "digit_char 5 = CHR ''5''"
  "digit_char 6 = CHR ''6''" "digit_char 7 = CHR ''7''" "digit_char 8 = CHR ''8''"
  "digit_char 9 = CHR ''9''"
  by (simp_all add: digit_char_def char_of_def bit_0)

lemma digit_val_digit_char [simp]: "d < 10 \<Longrightarrow> digit_val (digit_char d) = d"
  by (simp add: digit_val_def digit_char_def)

lemma is_digit_digit_char [simp]: "d < 10 \<Longrightarrow> is_digit (digit_char d)"
  by (simp add: is_digit_def digit_char_def)

lemma digits_value_snoc [simp]:
  "digits_value (xs @ [c]) = 10 * digits_value xs + digit_val c"
  by (simp add: digits_value_def)

lemma dec_string_facts:
  "dec_string n \<noteq> [] \<and> list_all is_digit (dec_string n) \<and> digits_value (dec_string n) = n"
proof (induction n rule: dec_string.induct)
  case (1 n)
  then show ?case
    by (subst (1 2 3) dec_string.simps) (auto simp: digits_value_def)
qed

lemma parse_u32_dec_string: "n < 2 ^ 32 \<Longrightarrow> parse_u32 (dec_string n) = Some (of_nat n)"
  using dec_string_facts [of n]
  by (auto simp: parse_u32_def is_digit_def split: list.split)

lemma split_on_no_sep: "c \<notin> set a \<Longrightarrow> split_on c a = [a]"
  by (induction a) auto

lemma split_on_append_sep: "c \<notin> set a \<Longrightarrow> split_on c (a @ c # s) = a # split_on c s"
  by (induction a) auto

lemma concat_split_on: "concat (split_on c s) = filter (\<lambda>x. x \<noteq> c) s"
  by (induction s) (auto split: list.split)

lemma split_on_join:
  "xs \<noteq> [] \<Longrightarrow> \<forall>a\<in>set xs. c \<notin> set a \<Longrightarrow> split_on c (join [c] xs) = xs"
proof (induction xs rule: induct_list012)
  case 1 then show ?case by simp
next
  case (2 x) then show ?case by (simp add: split_on_no_sep)
next
  case (3 x y zs) then show ?case by (simp add: split_on_append_sep)
qed

lemma filter_join:
  "\<forall>a\<in>set xs. c \<notin> set a \<Longrightarrow> c \<noteq> d \<Longrightarrow>
   filter (\<lambda>x. x \<noteq> c) (join [d, c] xs) = join [d] xs"
proof (induction xs rule: induct_list012)
  case 1 then show ?case by simp
next
  case (2 x) then show ?case by (auto simp: filter_id_conv)
next
  case (3 x y zs) then show ?case by (auto simp: filter_id_conv)
qed

end
