(* ===== verification/Assembler.thy ===== *)
theory Assembler
  imports Rust_Std
begin

text \<open>
  The front half of \<open>src/src/assembler.rs\<close>: the opcode table \<open>OP_CODES\<close>, the source
  normalizer \<open>read_file\<close>, the label resolver \<open>get_label_adresses\<close> and the instruction
  parser \<open>split_instruction\<close>, \<open>parse_argument\<close>, \<open>lines_to_instr\<close>, which turns each
  instruction line into the vector of numbers the encoder packs. A failed \<open>expect\<close> or
  \<open>unwrap\<close> is a panic and \<open>exit(1)\<close> an exit; both are the \<open>Inl\<close> of the result.
\<close>

section \<open>Errors of the assembler\<close>

text \<open>
  The ways assembly stops: the \<open>expect\<close> on \<open>read_to_string\<close> (a missing or unreadable
  file), the \<open>expect\<close>s on the two \<open>parse::<u32>\<close> of \<open>parse_argument\<close>, the
  \<open>exit(1)\<close> on an unknown mnemonic, and any other panic of the code (an \<open>unwrap\<close> on
  an empty line, an overflow of the label counter).
\<close>

datatype asm_error =
    FileNotFound string
  | InvalidRegister string
  | InvalidImmediate string
  | UnknownMnemonic string
  | AsmPanic rust_panic

section \<open>The opcode table\<close>

definition OP_CODES :: "(string \<times> u32) list" where
  "OP_CODES =
     [(''stop'', 0), (''add'', 1), (''sub'', 2), (''mul'', 3), (''div'', 4), (''and'', 5),
      (''or'', 6), (''xor'', 7), (''shl'', 8), (''shr'', 9), (''slt'', 10), (''sle'', 11),
      (''seq'', 12), (''load'', 13), (''store'', 14), (''jmp'', 15), (''braz'', 16),
      (''branz'', 17), (''scall'', 18)]"

section \<open>Source normalizer\<close>

text \<open>
  The file system is a map from paths to contents (\<open>None\<close>: the file cannot be read as
  UTF-8 text). The iterator chain of \<open>read_file\<close>: split at line feeds, trim, drop the
  empty lines and the lines that start with \<open>;\<close>, and cut every line at its first
  \<open>;\<close> and trim it again. \<open>chars().next().unwrap()\<close> and \<open>split(";").next().unwrap()\<close>
  cannot fail there, and \<open>hd\<close> models them.
\<close>

definition read_file :: "(string \<rightharpoonup> string) \<Rightarrow> string \<Rightarrow> asm_error + string list" where
  "read_file fs path =
     (case fs path of
        None \<Rightarrow> Inl (FileNotFound path)
      | Some content \<Rightarrow>
          Inr (map (\<lambda>line. trim (hd (split_on CHR '';'' line)))
                (filter (\<lambda>line. hd line \<noteq> CHR '';'')
                  (filter (\<lambda>line. line \<noteq> []) (map trim (split_on CHR 0x0A content))))))"

section \<open>Label resolver\<close>

text \<open>
  The \<open>for_each\<close> of \<open>get_label_adresses\<close>, the map \<open>addresses\<close> and the counter
  \<open>index\<close> passed along: a line ending with \<open>:\<close> binds the label (the line without its
  colon, \<open>pop()\<close>) to the current index, any other line advances the index.
\<close>

fun label_pass ::
  "profile \<Rightarrow> string list \<Rightarrow> (string \<rightharpoonup> u32) \<Rightarrow> u32 \<Rightarrow> rust_panic + (string \<rightharpoonup> u32)" where
  "label_pass p [] addresses index = Inr addresses"
| "label_pass p (line # lines) addresses index =
     sbind (unwrap (str_last line)) (\<lambda>c.
       if c = CHR '':'' then label_pass p lines (addresses(butlast line \<mapsto> index)) index
       else sbind (add_u32 p index 1) (\<lambda>index'. label_pass p lines addresses index'))"

definition get_label_adresses :: "profile \<Rightarrow> string list \<Rightarrow> rust_panic + (string \<rightharpoonup> u32)" where
  "get_label_adresses p lines = label_pass p lines Map.empty 0"

section \<open>Instruction parser\<close>

text \<open>
  \<open>split_instruction\<close>: the mnemonic is the text before the first space; when there is
  more, the remaining space-separated pieces are joined without separator and split at
  commas.
\<close>

definition split_instruction :: "string \<Rightarrow> string \<times> string list option" where
  "split_instruction instruction =
     (let data = split_on CHR '' '' instruction
      in (data ! 0,
          if 1 < length data then Some (split_on CHR '','' (concat (tl data))) else None))"

text \<open>
  \<open>parse_argument\<close>: an argument starting with \<open>r\<close> is a register whose number follows;
  otherwise a known label gives its address, and anything else must be a number. The flag
  says whether the argument was a register.
\<close>

definition parse_argument :: "string \<Rightarrow> (string \<rightharpoonup> u32) \<Rightarrow> asm_error + u32 \<times> bool" where
  "parse_argument argument labels =
     sbind (smap_err AsmPanic (unwrap (str_first argument))) (\<lambda>c.
       if c = CHR ''r'' then
         (case parse_u32 (tl argument) of
            None \<Rightarrow> Inl (InvalidRegister argument)
          | Some value \<Rightarrow> Inr (value, True))
       else
         (case labels argument of
            Some address \<Rightarrow> Inr (address, False)
          | None \<Rightarrow>
              (case parse_u32 argument of
                 None \<Rightarrow> Inl (InvalidImmediate argument)
               | Some value \<Rightarrow> Inr (value, False))))"

text \<open>
  The \<open>match args.len()\<close> of \<open>lines_to_instr\<close>: the numbers pushed after the opcode. A
  \<open>jmp\<close> with two arguments and every instruction with three push the flag
  \<open>1\<close> for a non-register and \<open>0\<close> for a register before the argument's value; any other
  count pushes nothing (the source only prints a message).
\<close>

definition instr_operands ::
  "string \<Rightarrow> string list \<Rightarrow> (string \<rightharpoonup> u32) \<Rightarrow> asm_error + u32 list" where
  "instr_operands op_name args labels =
     (if length args = 1 then
        sbind (parse_argument (args ! 0) labels) (\<lambda>(value, _). Inr [value])
      else if length args = 2 then
        sbind (if op_name = ''jmp''
               then sbind (parse_argument (args ! 0) labels) (\<lambda>(value, is_reg).
                      Inr [if \<not> is_reg then 1 else 0, value])
               else sbind (parse_argument (args ! 0) labels) (\<lambda>(value, _). Inr [value]))
          (\<lambda>first. sbind (parse_argument (args ! 1) labels) (\<lambda>(value, _). Inr (first @ [value])))
      else if length args = 3 then
        sbind (parse_argument (args ! 0) labels) (\<lambda>(v1, _).
        sbind (parse_argument (args ! 1) labels) (\<lambda>(v2, is_reg).
        sbind (parse_argument (args ! 2) labels) (\<lambda>(v3, _).
          Inr [v1, if \<not> is_reg then 1 else 0, v2, v3])))
      else Inr [])"

text \<open>
  The \<open>for\<close> loop of \<open>lines_to_instr\<close> with its state: the vectors built so far and
  \<open>has_stop\<close>. Label lines are skipped, an unknown mnemonic exits, and every other line
  gives one vector, the opcode first. The \<open>i32\<close> counter \<open>pc\<close> of the source is not
  modelled: it is only printed, but its \<open>+= 1\<close> would panic in a debug build after
  \<open>2^31 - 1\<close> instruction lines, a panic this model does not have.
\<close>

fun lines_loop ::
  "(string \<rightharpoonup> u32) \<Rightarrow> string list \<Rightarrow> u32 list list \<Rightarrow> bool \<Rightarrow>
   asm_error + u32 list list \<times> bool" where
  "lines_loop labels [] instructions has_stop = Inr (instructions, has_stop)"
| "lines_loop labels (line # lines) instructions has_stop =
     sbind (smap_err AsmPanic (unwrap (str_last line))) (\<lambda>c.
       if c = CHR '':'' then lines_loop labels lines instructions has_stop
       else
         (case split_instruction line of (op_name, args_opt) \<Rightarrow>
            (case map_of OP_CODES op_name of
               None \<Rightarrow> Inl (UnknownMnemonic op_name)
             | Some op_code \<Rightarrow>
                 sbind (case args_opt of None \<Rightarrow> Inr [] | Some args \<Rightarrow> instr_operands op_name args labels)
                   (\<lambda>operands. lines_loop labels lines (instructions @ [op_code # operands])
                      (has_stop \<or> op_name = ''stop'')))))"

text \<open>
  \<open>lines_to_instr\<close>: the labels are resolved over all lines first, so an argument may
  name a label defined further down. The result pairs the vectors with \<open>has_stop\<close>,
  whose \<open>false\<close> is the printed warning that the program has no \<open>stop\<close>.
\<close>

definition lines_to_instr :: "profile \<Rightarrow> string list \<Rightarrow> asm_error + u32 list list \<times> bool" where
  "lines_to_instr p lines =
     sbind (smap_err AsmPanic (get_label_adresses p lines)) (\<lambda>labels.
       lines_loop labels lines [] False)"

section \<open>Vocabulary of the properties\<close>

text \<open>
  Label lines are those whose last character is \<open>:\<close>; the others are instruction
  lines, and \<open>line_opcode\<close> is the opcode a line's mnemonic has in \<open>OP_CODES\<close>.
  \<open>vector_shape\<close> is what the encoder expects of a vector: an opcode and at most four
  operands, the flags of formats D and E being 0 or 1. An \<open>operand\<close> is what an argument
  denotes (a register number, a literal, a label) and \<open>print_operand\<close> how the spec writes
  it; \<open>operand_ok\<close> says it can be written unambiguously and \<open>operand_value\<close> is the pair
  \<open>parse_argument\<close> must return for it.
\<close>

definition is_label_line :: "string \<Rightarrow> bool" where
  "is_label_line l = (str_last l = Some CHR '':'')"

definition instr_lines :: "string list \<Rightarrow> string list" where
  "instr_lines lines = filter (\<lambda>l. \<not> is_label_line l) lines"

definition line_opcode :: "string \<Rightarrow> u32 option" where
  "line_opcode l = map_of OP_CODES (fst (split_instruction l))"

definition vector_shape :: "u32 list \<Rightarrow> bool" where
  "vector_shape v \<longleftrightarrow> v \<noteq> [] \<and> length v \<le> 5 \<and> (length v = 4 \<longrightarrow> v ! 1 \<le> 1) \<and> (length v = 5 \<longrightarrow> v ! 2 \<le> 1)"

datatype operand = Register nat | Immediate nat | Label string

fun print_operand :: "operand \<Rightarrow> string" where
  "print_operand (Register n) = CHR ''r'' # dec_string n"
| "print_operand (Immediate n) = dec_string n"
| "print_operand (Label l) = l"

fun operand_ok :: "(string \<rightharpoonup> u32) \<Rightarrow> operand \<Rightarrow> bool" where
  "operand_ok labels (Register n) = (n < 2 ^ 32)"
| "operand_ok labels (Immediate n) = (n < 2 ^ 32 \<and> labels (dec_string n) = None)"
| "operand_ok labels (Label l) = (l \<noteq> [] \<and> hd l \<noteq> CHR ''r'' \<and> labels l \<noteq> None)"

fun operand_value :: "(string \<rightharpoonup> u32) \<Rightarrow> operand \<Rightarrow> u32 \<times> bool" where
  "operand_value labels (Register n) = (of_nat n, True)"
| "operand_value labels (Immediate n) = (of_nat n, False)"
| "operand_value labels (Label l) = (the (labels l), False)"

section \<open>Source normalizer\<close>

lemma trim_last_not_ws: "trim s \<noteq> [] \<Longrightarrow> \<not> is_ws (last (trim s))"
  unfolding trim_def by (simp add: last_rev hd_dropWhile)

text \<open>C15: every line \<open>read_file\<close> returns is non-empty, holds no \<open>;\<close> and has no
  white space at either end, so the \<open>chars().last().unwrap()\<close> of the later passes
  cannot panic on it.\<close>

theorem read_file_lines:
  assumes "read_file fs path = Inr lines" and "l \<in> set lines"
  shows "l \<noteq> [] \<and> CHR '';'' \<notin> set l \<and> \<not> is_ws (hd l) \<and> \<not> is_ws (last l)"
proof -
  from assms obtain content line where
    "l = trim (hd (split_on CHR '';'' (trim line)))" and
    ne: "trim line \<noteq> []" and semi: "hd (trim line) \<noteq> CHR '';''"
    by (auto simp: read_file_def split: option.splits)
  moreover obtain x r where xr: "trim line = x # r" using ne by (cases "trim line") auto
  moreover have "\<not> is_ws x" using trim_hd_not_ws [OF ne] xr by simp
  ultimately have l: "l = trim (x # hd (split_on CHR '';'' r))" and lne: "l \<noteq> []"
    using split_on_hd_Cons [of x "CHR '';''" r] trim_Cons_not_ws by auto
  have "CHR '';'' \<notin> set (hd (split_on CHR '';'' (trim line)))"
    by (rule split_on_pieces [of _ _ "trim line"]) simp
  with l xr semi have "CHR '';'' \<notin> set (x # hd (split_on CHR '';'' r))"
    using split_on_hd_Cons [of x "CHR '';''" r] by simp
  with l have "CHR '';'' \<notin> set l" using set_trim by blast
  with lne l show ?thesis using trim_hd_not_ws trim_last_not_ws by blast
qed

section \<open>Label resolver\<close>

lemma last_occurrence_Cons:
  "(\<exists>pre post. x # xs = pre @ y # post \<and> y \<notin> set post \<and> P pre) \<longleftrightarrow>
   (x = y \<and> y \<notin> set xs \<and> P []) \<or> (\<exists>pre post. xs = pre @ y # post \<and> y \<notin> set post \<and> P (x # pre))"
  by (auto simp: Cons_eq_append_conv)

lemma last_occurrence_in: "xs = pre @ y # post \<Longrightarrow> y \<in> set xs"
  by simp

lemma label_line_split: "str_last x = Some CHR '':'' \<Longrightarrow> x = butlast x @ '':''"
  unfolding str_last_def by (metis append_butlast_last_id option.distinct(1) option.inject)

lemma label_pass_Inr:
  assumes "label_pass p lines m idx = Inr m'"
  shows "m' l = Some a \<longleftrightarrow>
    (\<exists>pre post. lines = pre @ (l @ '':'') # post \<and> l @ '':'' \<notin> set post \<and>
       a = idx + of_nat (length (instr_lines pre))) \<or>
    (l @ '':'' \<notin> set lines \<and> m l = Some a)"
  using assms
proof (induction lines arbitrary: m idx)
  case Nil
  then show ?case by simp
next
  case (Cons x xs)
  from Cons.prems obtain c where c: "str_last x = Some c" by (cases "str_last x") (simp_all add: unwrap_def)
  show ?case
  proof (cases "c = CHR '':''")
    case True
    with Cons.prems c have r: "label_pass p xs (m(butlast x \<mapsto> idx)) idx = Inr m'"
      by (simp add: unwrap_def)
    from True c have x: "x = butlast x @ '':''" by (simp add: label_line_split)
    from True c have il: "instr_lines (x # pre) = instr_lines pre" for pre
      by (simp add: instr_lines_def is_label_line_def)
    show ?thesis
      unfolding Cons.IH [OF r] last_occurrence_Cons il
      using x by (cases "l = butlast x") (auto simp: instr_lines_def dest: last_occurrence_in)
  next
    case False
    with Cons.prems c obtain idx' where i: "add_u32 p idx 1 = Inr idx'"
      and r: "label_pass p xs m idx' = Inr m'"
      by (auto simp: unwrap_def sum_simps)
    from i have idx': "idx' = idx + 1" by (rule add_u32_Inr)
    from False c have il: "length (instr_lines (x # pre)) = Suc (length (instr_lines pre))" for pre
      by (simp add: instr_lines_def is_label_line_def)
    from False c have "x \<noteq> l @ '':''" by (auto simp: str_last_def)
    then show ?thesis
      unfolding Cons.IH [OF r] last_occurrence_Cons il idx' by (auto simp: ac_simps)
  qed
qed

lemma label_pass_total:
  "(\<forall>l\<in>set lines. l \<noteq> []) \<Longrightarrow> (p = Debug \<longrightarrow> unat idx + length (instr_lines lines) < 2 ^ 32) \<Longrightarrow>
   \<exists>m'. label_pass p lines m idx = Inr m'"
proof (induction lines arbitrary: m idx)
  case Nil
  then show ?case by simp
next
  case (Cons x xs)
  show ?case
  proof (cases "is_label_line x")
    case True
    with Cons show ?thesis
      by (auto simp: is_label_line_def instr_lines_def unwrap_def)
  next
    case False
    from Cons.prems(2) False have "p = Debug \<longrightarrow> unat idx + 1 < 2 ^ 32"
      and b: "p = Debug \<longrightarrow> unat (idx + 1) + length (instr_lines xs) < 2 ^ 32"
      by (auto simp: instr_lines_def unat_word_ariths(1))
    then have "add_u32 p idx 1 = Inr (idx + 1)"
      by (cases p) (simp_all add: add_u32_def)
    moreover obtain c where "str_last x = Some c" and "c \<noteq> CHR '':''"
      using Cons.prems(1) False by (auto simp: is_label_line_def str_last_def)
    ultimately show ?thesis
      using Cons.IH [of "idx + 1" m] Cons.prems(1) b by (simp add: unwrap_def)
  qed
qed

text \<open>C6: on lines none of which is empty (and, in a debug build, fewer than \<open>2^32\<close>
  instruction lines), \<open>get_label_adresses\<close> returns, and it maps a label exactly to the
  number of instruction lines before the label's last definition, which is the address of
  the first instruction after it: forward and backward references get the same address,
  and a redefinition silently wins over the earlier ones.\<close>

theorem get_label_adresses_correct:
  assumes "\<forall>l\<in>set lines. l \<noteq> []" and "p = Debug \<longrightarrow> length (instr_lines lines) < 2 ^ 32"
  shows "\<exists>m. get_label_adresses p lines = Inr m \<and>
    (\<forall>l a. m l = Some a \<longleftrightarrow>
       (\<exists>pre post. lines = pre @ (l @ '':'') # post \<and> l @ '':'' \<notin> set post \<and>
          a = of_nat (length (instr_lines pre))))"
proof -
  obtain m where m: "label_pass p lines Map.empty 0 = Inr m"
    using label_pass_total [of lines p 0 Map.empty] assms by auto
  show ?thesis
    using label_pass_Inr [OF m] m by (simp add: get_label_adresses_def)
qed

section \<open>Instruction parser\<close>

lemma parse_argument_register:
  "n < 2 ^ 32 \<Longrightarrow> parse_argument (CHR ''r'' # dec_string n) labels = Inr (of_nat n, True)"
  by (simp add: parse_argument_def str_first_def unwrap_def parse_u32_dec_string)

lemma dec_string_Cons: "\<exists>c cs. dec_string n = c # cs \<and> c \<noteq> CHR ''r''"
  using dec_string_facts [of n]
  by (cases "dec_string n") (auto simp: is_digit_def)

lemma parse_argument_immediate:
  assumes "n < 2 ^ 32" and "labels (dec_string n) = None"
  shows "parse_argument (dec_string n) labels = Inr (of_nat n, False)"
proof -
  obtain c cs where "dec_string n = c # cs" "c \<noteq> CHR ''r''" using dec_string_Cons by blast
  with assms parse_u32_dec_string [of n] show ?thesis
    by (simp add: parse_argument_def str_first_def unwrap_def)
qed

lemma parse_argument_label:
  "l \<noteq> [] \<Longrightarrow> hd l \<noteq> CHR ''r'' \<Longrightarrow> labels l = Some a \<Longrightarrow> parse_argument l labels = Inr (a, False)"
  by (cases l) (auto simp: parse_argument_def str_first_def unwrap_def)

text \<open>The text of a register argument: no space or comma, and it ends with a digit.\<close>

lemma dec_string_chars: "x \<in> set (dec_string n) \<Longrightarrow> is_digit x"
  using dec_string_facts [of n] by (simp add: list_all_iff)

lemma register_text:
  "CHR '' '' \<notin> set (print_operand (Register n)) \<and> CHR '','' \<notin> set (print_operand (Register n)) \<and>
   str_last (print_operand (Register n)) \<noteq> Some CHR '':''"
proof -
  have "dec_string n \<noteq> []" using dec_string_facts [of n] by simp
  then have "last (dec_string n) \<in> set (dec_string n)" by simp
  then show ?thesis
    by (auto simp: str_last_def is_digit_def dest!: dec_string_chars)
qed

lemma OP_CODES_names: "map_of OP_CODES mn = Some code \<Longrightarrow> CHR '' '' \<notin> set mn \<and> code < 32"
  by (auto simp: OP_CODES_def split: if_splits)

text \<open>C13: \<open>parse_argument\<close> reads back every operand written as the spec writes it: a
  register \<open>r<n>\<close> gives \<open>(n, true)\<close>, a literal gives its value and a label its address,
  both flagged as non-registers, provided the number fits in 32 bits, a literal is not
  also a label and a label does not start with \<open>r\<close>.\<close>

theorem parse_argument_roundtrip:
  "operand_ok labels x \<Longrightarrow> parse_argument (print_operand x) labels = Inr (operand_value labels x)"
  by (cases x) (auto simp: parse_argument_register parse_argument_immediate parse_argument_label)

text \<open>C24: any argument that starts with \<open>r\<close> is read as a register: when the rest is
  not a \<open>u32\<close> numeral the assembler panics, whatever the labels are, so a label whose
  name starts with \<open>r\<close> (\<open>repeat\<close>, \<open>return\<close>) can be defined but never used.\<close>

theorem parse_argument_r_prefix:
  "parse_u32 t = None \<Longrightarrow> parse_argument (CHR ''r'' # t) labels = Inl (InvalidRegister (CHR ''r'' # t))"
  by (simp add: parse_argument_def str_first_def unwrap_def)

text \<open>C25: the spec's immediate syntax \<open>#3\<close> is not understood: an argument starting
  with \<open>#\<close> that is not a label makes the assembler panic with an invalid immediate.\<close>

theorem parse_argument_hash_immediate:
  "str_first s = Some CHR ''#'' \<Longrightarrow> labels s = None \<Longrightarrow> parse_argument s labels = Inl (InvalidImmediate s)"
  by (cases s) (auto simp: parse_argument_def str_first_def unwrap_def parse_u32_def is_digit_def
      split: list.split)

text \<open>\<open>split_instruction\<close> recovers the mnemonic and the argument list of a line
  written \<open>mnemonic a1, a2, ...\<close>, whatever the arguments (without spaces or commas).\<close>

lemma split_instruction_join:
  assumes "CHR '' '' \<notin> set op_name" and "args \<noteq> []"
    and "\<forall>a\<in>set args. CHR '' '' \<notin> set a \<and> CHR '','' \<notin> set a"
  shows "split_instruction (op_name @ CHR '' '' # join '', '' args) = (op_name, Some args)"
proof -
  have "filter (\<lambda>x. x \<noteq> CHR '' '') (join [CHR '','', CHR '' ''] args) = join [CHR '',''] args"
    using assms(3) by (simp add: filter_join)
  with assms show ?thesis
    by (simp add: split_instruction_def split_on_append_sep concat_split_on split_on_join)
qed

lemma instr_operands_shape:
  "instr_operands op_name args labels = Inr fs \<Longrightarrow>
   length fs \<le> 4 \<and> (length fs = 3 \<longrightarrow> fs ! 0 \<le> 1) \<and> (length fs = 4 \<longrightarrow> fs ! 1 \<le> 1)"
  by (auto simp: instr_operands_def sum_simps split: if_splits prod.splits)

lemma lines_loop_Inr:
  assumes "lines_loop labels lines acc hs = Inr (instrs, hs')"
  shows "\<exists>new. instrs = acc @ new \<and> map (\<lambda>v. Some (hd v)) new = map line_opcode (instr_lines lines) \<and>
    (\<forall>v\<in>set new. vector_shape v) \<and> (\<forall>l\<in>set lines. l \<noteq> []) \<and>
    (hs' \<longleftrightarrow> hs \<or> ''stop'' \<in> fst ` split_instruction ` set (instr_lines lines))"
  using assms
proof (induction lines arbitrary: acc hs)
  case Nil
  then show ?case by (simp add: instr_lines_def)
next
  case (Cons x xs)
  from Cons.prems obtain c where c: "str_last x = Some c"
    by (cases "str_last x") (simp_all add: unwrap_def)
  then have x: "x \<noteq> []" by (auto simp: str_last_def)
  show ?case
  proof (cases "c = CHR '':''")
    case True
    with Cons.prems c have "lines_loop labels xs acc hs = Inr (instrs, hs')" by (simp add: unwrap_def)
    with Cons.IH True c x show ?thesis by (simp add: instr_lines_def is_label_line_def)
  next
    case False
    obtain op_name args_opt where sp: "split_instruction x = (op_name, args_opt)" by fastforce
    from Cons.prems c False sp obtain code fs where
      code: "map_of OP_CODES op_name = Some code" and
      fs: "(case args_opt of None \<Rightarrow> Inr [] | Some args \<Rightarrow> instr_operands op_name args labels) = Inr fs" and
      r: "lines_loop labels xs (acc @ [code # fs]) (hs \<or> op_name = ''stop'') = Inr (instrs, hs')"
      by (auto simp: unwrap_def sum_simps split: option.splits)
    from fs have "vector_shape (code # fs)"
      by (auto simp: vector_shape_def split: option.splits dest!: instr_operands_shape)
    moreover have "instr_lines (x # xs) = x # instr_lines xs" and "line_opcode x = Some code"
      using False c sp code by (simp_all add: instr_lines_def is_label_line_def line_opcode_def)
    ultimately show ?thesis
      using Cons.IH [OF r] x sp by auto
  qed
qed

text \<open>C7: when \<open>lines_to_instr\<close> succeeds it gives one vector per instruction line, in
  order, headed by the opcode of the line's mnemonic, every vector of the shape the
  encoder expects, and it has seen a \<open>stop\<close> exactly when some line's mnemonic is
  \<open>stop\<close> (otherwise it prints its warning).\<close>

theorem lines_to_instr_correct:
  assumes "lines_to_instr p lines = Inr (instrs, has_stop)"
  shows "map (\<lambda>v. Some (hd v)) instrs = map line_opcode (instr_lines lines) \<and>
    (\<forall>v\<in>set instrs. vector_shape v) \<and>
    (has_stop \<longleftrightarrow> ''stop'' \<in> fst ` split_instruction ` set (instr_lines lines))"
  using assms lines_loop_Inr [of _ lines "[]" False instrs has_stop]
  by (auto simp: lines_to_instr_def sum_simps)

text \<open>C14: a line whose mnemonic is not in \<open>OP_CODES\<close> makes the whole assembly fail:
  \<open>lines_to_instr\<close> returns no instructions at all.\<close>

theorem unknown_mnemonic_aborts:
  assumes "l \<in> set lines" and "\<not> is_label_line l" and "line_opcode l = None"
  shows "lines_to_instr p lines \<noteq> Inr r"
proof
  assume "lines_to_instr p lines = Inr r"
  then obtain labels where "lines_loop labels lines [] False = Inr r"
    by (auto simp: lines_to_instr_def sum_simps)
  from lines_loop_Inr [of labels lines "[]" False "fst r" "snd r"] this
  have "map (\<lambda>v. Some (hd v)) (fst r) = map line_opcode (instr_lines lines)" by auto
  moreover from assms have "None \<in> set (map line_opcode (instr_lines lines))"
    by (force simp: instr_lines_def)
  ultimately have "None \<in> set (map (\<lambda>v. Some (hd v)) (fst r))" by (simp only:)
  then show False by auto
qed

text \<open>C23: a line with a known mnemonic and four or more arguments is not skipped:
  \<open>lines_to_instr\<close> prints a message and still emits a vector holding the opcode alone,
  which the encoder turns into a word whose other fields are all zero.\<close>

theorem bad_operand_count_emits_opcode:
  assumes "split_instruction line = (mn, Some args)" and "3 < length args"
    and "map_of OP_CODES mn = Some code" and "str_last line = Some c" and "c \<noteq> CHR '':''"
  shows "lines_loop labels (line # rest) acc hs = lines_loop labels rest (acc @ [[code]]) (hs \<or> mn = ''stop'')"
  using assms by (simp add: unwrap_def instr_operands_def)

section \<open>Witnesses\<close>

text \<open>The definitions of the parser, unfolded to run it on concrete lines.\<close>

lemmas asm_eval_simps = lines_to_instr_def get_label_adresses_def OP_CODES_def split_instruction_def
  instr_operands_def parse_argument_def str_last_def str_first_def unwrap_def parse_u32_def
  add_u32_def is_digit_def digits_value_def digit_val_def

theorem read_file_lines_witness:
  "read_file (\<lambda>_. Some '' loop: ; top\<newline>; only a comment\<newline>\<newline>  stop\<newline>'') ''prog.s'' = Inr [''loop:'', ''stop''] \<and>
   ''loop:'' \<in> set [''loop:'', ''stop''] \<and>
   (''loop:'' \<noteq> [] \<and> CHR '';'' \<notin> set ''loop:'' \<and> \<not> is_ws (hd ''loop:'') \<and> \<not> is_ws (last ''loop:''))"
proof -
  have r: "read_file (\<lambda>_. Some '' loop: ; top\<newline>; only a comment\<newline>\<newline>  stop\<newline>'') ''prog.s'' = Inr [''loop:'', ''stop'']"
    by (simp add: read_file_def trim_def is_ws_def)
  show ?thesis using read_file_lines [OF r, of "''loop:''"] r by simp
qed

theorem get_label_adresses_correct_witness:
  "list_all (\<lambda>l. l \<noteq> []) [''braz r1,end'', ''end:'', ''stop''] \<and>
   length (instr_lines [''braz r1,end'', ''end:'', ''stop'']) < 2 ^ 32 \<and>
   (\<exists>m. get_label_adresses Debug [''braz r1,end'', ''end:'', ''stop''] = Inr m \<and>
    (\<forall>l a. m l = Some a \<longleftrightarrow>
       (\<exists>pre post. [''braz r1,end'', ''end:'', ''stop''] = pre @ (l @ '':'') # post \<and> l @ '':'' \<notin> set post \<and>
          a = of_nat (length (instr_lines pre)))))"
proof -
  have h: "\<forall>l\<in>set [''braz r1,end'', ''end:'', ''stop'']. l \<noteq> []"
    "Debug = Debug \<longrightarrow> length (instr_lines [''braz r1,end'', ''end:'', ''stop'']) < 2 ^ 32"
    by (simp_all add: instr_lines_def is_label_line_def str_last_def)
  show ?thesis using get_label_adresses_correct [OF h] h by (simp add: list_all_iff)
qed

theorem parse_argument_roundtrip_witness:
  "operand_ok [''end'' \<mapsto> 3] (Label ''end'') \<and>
   parse_argument (print_operand (Label ''end'')) [''end'' \<mapsto> 3] = Inr (operand_value [''end'' \<mapsto> 3] (Label ''end''))"
  using parse_argument_roundtrip [of "[''end'' \<mapsto> 3]" "Label ''end''"] by simp

theorem parse_argument_hash_immediate_witness:
  "str_first ''#3'' = Some CHR ''#'' \<and> Map.empty ''#3'' = (None :: u32 option) \<and>
   parse_argument ''#3'' Map.empty = Inl (InvalidImmediate ''#3'')"
  using parse_argument_hash_immediate [of "''#3''" Map.empty] by (simp add: str_first_def)

theorem lines_to_instr_correct_witness:
  "lines_to_instr Debug [''loop:'', ''braz r1,end'', ''add r1,1,r1'', ''end:'', ''stop''] =
     Inr ([[16, 1, 2], [1, 1, 1, 1, 1], [0]], True) \<and>
   map (\<lambda>v. Some (hd v)) [[16, 1, 2], [1, 1, 1, 1, 1], [0 :: u32]] =
     map line_opcode (instr_lines [''loop:'', ''braz r1,end'', ''add r1,1,r1'', ''end:'', ''stop'']) \<and>
   list_all vector_shape [[16, 1, 2], [1, 1, 1, 1, 1], [0 :: u32]] \<and>
   (True \<longleftrightarrow> ''stop'' \<in> fst ` split_instruction ` set (instr_lines [''loop:'', ''braz r1,end'', ''add r1,1,r1'', ''end:'', ''stop'']))"
proof -
  have r: "lines_to_instr Debug [''loop:'', ''braz r1,end'', ''add r1,1,r1'', ''end:'', ''stop''] =
     Inr ([[16, 1, 2], [1, 1, 1, 1, 1], [0]], True)"
    by (simp add: asm_eval_simps)
  show ?thesis using lines_to_instr_correct [OF r] r by (simp only: list_all_iff) blast
qed

theorem unknown_mnemonic_aborts_witness:
  "''mov r1,r2'' \<in> set [''stop'', ''mov r1,r2''] \<and> \<not> is_label_line ''mov r1,r2'' \<and>
   line_opcode ''mov r1,r2'' = None \<and> lines_to_instr Debug [''stop'', ''mov r1,r2''] \<noteq> Inr ([[0]], True)"
proof -
  have h: "''mov r1,r2'' \<in> set [''stop'', ''mov r1,r2'']" "\<not> is_label_line ''mov r1,r2''"
    "line_opcode ''mov r1,r2'' = None"
    by (simp_all add: is_label_line_def str_last_def line_opcode_def split_instruction_def OP_CODES_def)
  show ?thesis using unknown_mnemonic_aborts [OF h, of Debug "([[0]], True)"] h by blast
qed

theorem bad_operand_count_emits_opcode_witness:
  "split_instruction ''add r1,r2,r3,r4'' = (''add'', Some [''r1'', ''r2'', ''r3'', ''r4'']) \<and>
   3 < length [''r1'', ''r2'', ''r3'', ''r4''] \<and> map_of OP_CODES ''add'' = Some 1 \<and>
   str_last ''add r1,r2,r3,r4'' = Some CHR ''4'' \<and> CHR ''4'' \<noteq> CHR '':'' \<and>
   lines_loop Map.empty [''add r1,r2,r3,r4''] [] False = lines_loop Map.empty [] [[1]] False"
proof -
  have h: "split_instruction ''add r1,r2,r3,r4'' = (''add'', Some [''r1'', ''r2'', ''r3'', ''r4''])"
    "3 < length [''r1'', ''r2'', ''r3'', ''r4'']" "map_of OP_CODES ''add'' = Some 1"
    "str_last ''add r1,r2,r3,r4'' = Some CHR ''4''" "CHR ''4'' \<noteq> CHR '':''"
    by (simp_all add: split_instruction_def OP_CODES_def str_last_def)
  show ?thesis using bad_operand_count_emits_opcode [OF h, of Map.empty "[]" "[]" False] h by simp
qed

theorem parse_argument_r_prefix_witness:
  "parse_u32 ''epeat'' = None \<and> [''repeat'' \<mapsto> (0 :: u32)] ''repeat'' = Some 0 \<and>
   parse_argument ''repeat'' [''repeat'' \<mapsto> 0] = Inl (InvalidRegister ''repeat'')"
  using parse_argument_r_prefix [of "''epeat''" "[''repeat'' \<mapsto> 0]"]
  by (simp add: parse_u32_def is_digit_def)

end
