(* ===== verification/Decoder.thy ===== *)
theory Decoder
  imports Rust_Std
begin

text \<open>
  The decoder of \<open>src/src/vm.rs\<close>: the flat \<open>Instruction\<close> struct and
  \<open>Instruction::decode\<close>, which reads every field of every format out of one 32-bit
  word with a fixed mask and shift, whatever the opcode. The lemmas give each field as a
  slice of the word (\<open>take_bit\<close> of \<open>drop_bit\<close>) and bound it by its width.
\<close>

unbundle bit_operations_syntax

section \<open>The decoded instruction\<close>

text \<open>The struct \<open>Instruction\<close>; the fields \<open>a\<close> and \<open>n\<close> are renamed
  \<open>a_field\<close> and \<open>n_field\<close> so that they do not take the names of variables.\<close>

record instruction =
  instr_num :: u32
  imm1 :: u32
  o1 :: u32
  r1 :: u32
  imm2 :: u32
  o2 :: u32
  r2 :: u32
  a_field :: u32
  n_field :: u32

definition decode :: "u32 \<Rightarrow> instruction" where
  "decode w =
     \<lparr>instr_num = drop_bit 27 (w AND 0xF8000000),
      imm1 = drop_bit 26 (w AND 0x04000000),
      o1 = drop_bit 5 (w AND 0x03FFFFE0),
      r1 = drop_bit 22 (w AND 0x07C00000),
      imm2 = drop_bit 21 (w AND 0x00200000),
      o2 = drop_bit 5 (w AND 0x001FFFE0),
      r2 = w AND 0x0000001F,
      a_field = w AND 0x003FFFFF,
      n_field = w AND 0x07FFFFFF\<rparr>"

section \<open>Fields as slices of the word\<close>

lemma decode_masks:
  "(0xF8000000 :: u32) = push_bit 27 (mask 5)"
  "(0x04000000 :: u32) = push_bit 26 (mask 1)"
  "(0x03FFFFE0 :: u32) = push_bit 5 (mask 21)"
  "(0x07C00000 :: u32) = push_bit 22 (mask 5)"
  "(0x00200000 :: u32) = push_bit 21 (mask 1)"
  "(0x001FFFE0 :: u32) = push_bit 5 (mask 16)"
  "(0x0000001F :: u32) = mask 5"
  "(0x003FFFFF :: u32) = mask 22"
  "(0x07FFFFFF :: u32) = mask 27"
  by (simp_all add: mask_eq_exp_minus_1 push_bit_eq_mult)

lemma take_bit_one_word: "take_bit 1 (x :: 'a::len word) = of_bool (bit x 0)"
  by (rule bit_word_eqI) (simp only: bit_take_bit_iff bit_of_bool_iff bit_drop_bit_eq, auto)

lemma decode_fields [bitfield]:
  "instr_num (decode w) = take_bit 5 (drop_bit 27 w)"
  "imm1 (decode w) = of_bool (bit w 26)"
  "o1 (decode w) = take_bit 21 (drop_bit 5 w)"
  "r1 (decode w) = take_bit 5 (drop_bit 22 w)"
  "imm2 (decode w) = of_bool (bit w 21)"
  "o2 (decode w) = take_bit 16 (drop_bit 5 w)"
  "r2 (decode w) = take_bit 5 w"
  "a_field (decode w) = take_bit 22 w"
  "n_field (decode w) = take_bit 27 w"
  by (simp_all only: decode_def instruction.simps decode_masks field_extract
        flip: take_bit_eq_mask) (simp_all only: take_bit_one_word, simp_all add: bit_simps)

lemma take_bit_u32_less: "n < 32 \<Longrightarrow> take_bit n (x :: u32) < 2 ^ n"
  by (simp add: take_bit_eq_mask and_mask_less')


text \<open>Every field \<open>decode\<close> returns fits its width.\<close>

lemma decode_bounds:
  "instr_num (decode w) < 32 \<and> imm1 (decode w) \<le> 1 \<and> o1 (decode w) < 2 ^ 21 \<and>
   r1 (decode w) < 32 \<and> imm2 (decode w) \<le> 1 \<and> o2 (decode w) < 2 ^ 16 \<and>
   r2 (decode w) < 32 \<and> a_field (decode w) < 2 ^ 22 \<and> n_field (decode w) < 2 ^ 27"
  using take_bit_u32_less [of 5] take_bit_u32_less [of 21] take_bit_u32_less [of 16]
    take_bit_u32_less [of 22] take_bit_u32_less [of 27]
  by (simp add: decode_fields)

end
