(* ===== verification/Encoder.thy ===== *)
theory Encoder
  imports Decoder
begin

text \<open>
  The encoder of \<open>src/src/assembler.rs\<close>, \<open>instr_to_machine_code\<close>: each
  instruction arrives as the \<open>Vec<u32>\<close> built by \<open>lines_to_instr\<close> (the opcode,
  then the operand values in the order of their fields) and the length of that vector
  chooses one of the five layouts of the spec (A to E). Each field is shifted to its place
  and added to the word with \<open>+=\<close>, which panics on overflow in a debug build.
  The main results are the round trip through the decoder in both directions: fields that
  fit their widths come back out of \<open>decode\<close> unchanged, and encoding the fields a
  format reads from any word gives the word back.
\<close>

unbundle bit_operations_syntax

section \<open>The encoder\<close>

text \<open>One iteration of the loop of \<open>instr_to_machine_code\<close>: the \<open>match instr.len()\<close>.
  Indexing \<open>instr[0]\<close> of an empty vector panics; a vector longer than five is
  encoded as its opcode alone, like the \<open>_ => {}\<close> arm.\<close>

definition encode_instr :: "profile \<Rightarrow> u32 list \<Rightarrow> rust_panic + u32" where
  "encode_instr p instr =
     (case instr of
        [] \<Rightarrow> Inl (IndexOutOfBounds 0 0)
      | op # fs \<Rightarrow>
          (let w = push_bit 27 op in
           case fs of
             [] \<Rightarrow> Inr w
           | [num] \<Rightarrow> add_u32 p w num
           | [reg, addr] \<Rightarrow>
               sbind (add_u32 p w (push_bit 22 reg)) (\<lambda>w. add_u32 p w addr)
           | [imm, opd, reg] \<Rightarrow>
               sbind (add_u32 p w (push_bit 26 imm)) (\<lambda>w.
               sbind (add_u32 p w (push_bit 5 opd)) (\<lambda>w. add_u32 p w reg))
           | [reg, imm, opd, reg'] \<Rightarrow>
               sbind (add_u32 p w (push_bit 22 reg)) (\<lambda>w.
               sbind (add_u32 p w (push_bit 21 imm)) (\<lambda>w.
               sbind (add_u32 p w (push_bit 5 opd)) (\<lambda>w. add_u32 p w reg')))
           | _ \<Rightarrow> Inr w))"

text \<open>The whole loop: the words in order, stopping at the first panic.\<close>

fun instr_to_machine_code :: "profile \<Rightarrow> u32 list list \<Rightarrow> rust_panic + u32 list" where
  "instr_to_machine_code p [] = Inr []"
| "instr_to_machine_code p (instr # instrs) =
     sbind (encode_instr p instr) (\<lambda>w.
     sbind (instr_to_machine_code p instrs) (\<lambda>ws. Inr (w # ws)))"

section \<open>Operand tuples of the five formats\<close>

text \<open>
  The operand tuples of the five formats, the vector \<open>lines_to_instr\<close> builds for
  each, the widths of their fields, and the fields the decoder reads back for that format
  (the ones the executor uses for the opcodes of the format).
\<close>

datatype fields =
    FmtA u32
  | FmtB u32 u32
  | FmtC u32 u32 u32
  | FmtD u32 u32 u32 u32
  | FmtE u32 u32 u32 u32 u32

fun fields_list :: "fields \<Rightarrow> u32 list" where
  "fields_list (FmtA op) = [op]"
| "fields_list (FmtB op num) = [op, num]"
| "fields_list (FmtC op reg addr) = [op, reg, addr]"
| "fields_list (FmtD op imm opd reg) = [op, imm, opd, reg]"
| "fields_list (FmtE op reg imm opd reg') = [op, reg, imm, opd, reg']"

fun fields_fit :: "fields \<Rightarrow> bool" where
  "fields_fit (FmtA op) = (op < 2 ^ 5)"
| "fields_fit (FmtB op num) = (op < 2 ^ 5 \<and> num < 2 ^ 27)"
| "fields_fit (FmtC op reg addr) = (op < 2 ^ 5 \<and> reg < 2 ^ 5 \<and> addr < 2 ^ 22)"
| "fields_fit (FmtD op imm opd reg) = (op < 2 ^ 5 \<and> imm < 2 \<and> opd < 2 ^ 21 \<and> reg < 2 ^ 5)"
| "fields_fit (FmtE op reg imm opd reg') =
     (op < 2 ^ 5 \<and> reg < 2 ^ 5 \<and> imm < 2 \<and> opd < 2 ^ 16 \<and> reg' < 2 ^ 5)"

fun read_fields :: "fields \<Rightarrow> instruction \<Rightarrow> fields" where
  "read_fields (FmtA _) i = FmtA (instr_num i)"
| "read_fields (FmtB _ _) i = FmtB (instr_num i) (n_field i)"
| "read_fields (FmtC _ _ _) i = FmtC (instr_num i) (r1 i) (a_field i)"
| "read_fields (FmtD _ _ _ _) i = FmtD (instr_num i) (imm1 i) (o1 i) (r2 i)"
| "read_fields (FmtE _ _ _ _ _) i = FmtE (instr_num i) (r1 i) (imm2 i) (o2 i) (r2 i)"

section \<open>Fields placed without carry\<close>

lemma add_u32_field:
  "take_bit k acc = 0 \<Longrightarrow> take_bit k b = b \<Longrightarrow> add_u32 p acc b = Inr (acc OR b)"
  using add_as_or_no_overflow [of k acc b] add_as_or [of k acc b]
  by (simp add: add_u32_no_overflow)

lemmas add_u32_fields = add_u32_field [of 27] add_u32_field [of 26] add_u32_field [of 22]
  add_u32_field [of 21] add_u32_field [of 5]

section \<open>Round trip through the decoder\<close>

lemmas encode_simps = encode_instr_def add_u32_fields take_bit_push_bit take_bit_or or.assoc
  word_mod2_small of_bool_mod2
lemmas decode_simps = decode_fields take_bit_or drop_bit_or bit_simps of_bool_bit0 slice_same slice_above

text \<open>Each format placed and read back: the word the encoder builds from fields that fit
  their widths, and the fields the decoder reads from it.\<close>

lemma encode_fmtA:
  "op < 2 ^ 5 \<Longrightarrow> encode_instr p [op] = Inr (push_bit 27 op) \<and> instr_num (decode (push_bit 27 op)) = op"
  by (simp add: encode_simps decode_simps)

lemma encode_fmtB:
  assumes a: "op < 2 ^ 5" "num < 2 ^ 27"
  shows "\<exists>w. encode_instr p [op, num] = Inr w \<and> instr_num (decode w) = op \<and> n_field (decode w) = num"
proof -
  note f = a [THEN take_bit_fits] a [THEN slice_below] a [THEN slice_below0] a [THEN no_bit_above]
  show ?thesis using a by (simp add: encode_simps decode_simps f)
qed

lemma encode_fmtC:
  assumes a: "op < 2 ^ 5" "reg < 2 ^ 5" "addr < 2 ^ 22"
  shows "\<exists>w. encode_instr p [op, reg, addr] = Inr w \<and>
    instr_num (decode w) = op \<and> r1 (decode w) = reg \<and> a_field (decode w) = addr"
proof -
  note f = a [THEN take_bit_fits] a [THEN slice_below] a [THEN slice_below0] a [THEN no_bit_above]
  show ?thesis using a by (simp add: encode_simps decode_simps f)
qed

lemma encode_fmtD:
  assumes a: "op < 2 ^ 5" "imm < 2 ^ 1" "opd < 2 ^ 21" "reg < 2 ^ 5"
  shows "\<exists>w. encode_instr p [op, imm, opd, reg] = Inr w \<and>
    instr_num (decode w) = op \<and> imm1 (decode w) = imm \<and> o1 (decode w) = opd \<and> r2 (decode w) = reg"
proof -
  note f = a [THEN take_bit_fits] a [THEN slice_below] a [THEN slice_below0] a [THEN no_bit_above]
  show ?thesis using a by (simp add: encode_simps decode_simps f)
qed

lemma encode_fmtE:
  assumes a: "op < 2 ^ 5" "reg < 2 ^ 5" "imm < 2 ^ 1" "opd < 2 ^ 16" "reg' < 2 ^ 5"
  shows "\<exists>w. encode_instr p [op, reg, imm, opd, reg'] = Inr w \<and>
    instr_num (decode w) = op \<and> r1 (decode w) = reg \<and> imm2 (decode w) = imm \<and>
    o2 (decode w) = opd \<and> r2 (decode w) = reg'"
proof -
  note f = a [THEN take_bit_fits] a [THEN slice_below] a [THEN slice_below0] a [THEN no_bit_above]
  show ?thesis using a by (simp add: encode_simps decode_simps f)
qed

text \<open>C1: encoding an operand tuple whose fields fit their widths never panics, in a
  debug or a release build, and the decoder reads every field of the tuple's format back
  exactly, the one-bit immediate flags included.\<close>

theorem encode_decode_roundtrip:
  assumes "fields_fit f"
  shows "\<exists>w. encode_instr p (fields_list f) = Inr w \<and> read_fields f (decode w) = f"
proof (cases f)
  case (FmtA op)
  with assms encode_fmtA [of op p] show ?thesis by auto
next
  case (FmtB op num)
  with assms encode_fmtB [of op num p] show ?thesis by auto
next
  case (FmtC op reg addr)
  with assms encode_fmtC [of op reg addr p] show ?thesis by auto
next
  case (FmtD op imm opd reg)
  with assms encode_fmtD [of op imm opd reg p] show ?thesis by auto
next
  case (FmtE op reg imm opd reg')
  with assms encode_fmtE [of op reg imm opd reg' p] show ?thesis by auto
qed

text \<open>C11: for the formats B to E, re-encoding the fields the decoder reads from any
  word reproduces the word exactly: the fields of each of these formats cover all 32 bits.
  (Format A keeps only the opcode.)\<close>

theorem decode_encode_roundtrip:
  "(\<forall>op. f \<noteq> FmtA op) \<Longrightarrow> encode_instr p (fields_list (read_fields f (decode w))) = Inr w"
  by (cases f; simp add: decode_fields encode_simps split del: if_split split_of_bool;
      rule bit_word_eqI; simp only: bit_or_iff bit_push_bit_of_bool_bit;
      auto simp: bit_simps le_add_diff_inverse cong: conj_cong)

section \<open>The whole loop\<close>

lemma instr_to_machine_code_Inr:
  "instr_to_machine_code p instrs = Inr ws \<longleftrightarrow> list_all2 (\<lambda>v w. encode_instr p v = Inr w) instrs ws"
proof (induction instrs arbitrary: ws)
  case Nil
  then show ?case by auto
next
  case (Cons v vs)
  then show ?case by (cases ws) (auto simp: sum_simps)
qed

lemma encode_instr_Release: "v \<noteq> [] \<Longrightarrow> \<exists>w. encode_instr Release v = Inr w"
  by (auto simp: encode_instr_def Let_def split: list.split)

text \<open>C19: in a release build the encoder never panics: every non-empty vector gives one
  word, so the loop gives one word per vector. (In a debug build a field that is too wide
  can make a \<open>+=\<close> overflow and panic.)\<close>

theorem encoder_release_total:
  "(\<forall>v\<in>set instrs. v \<noteq> []) \<Longrightarrow>
   \<exists>ws. instr_to_machine_code Release instrs = Inr ws \<and> length ws = length instrs"
proof (induction instrs)
  case Nil
  then show ?case by simp
next
  case (Cons v vs)
  then obtain w ws where "encode_instr Release v = Inr w" "instr_to_machine_code Release vs = Inr ws"
    "length ws = length vs"
    using encode_instr_Release by force
  then show ?case by simp
qed

section \<open>Operands wider than their field\<close>

text \<open>The opcode field of a two-element vector (format B) as a function of the operand: the
  encoder adds the operand to the shifted opcode without masking it.\<close>

lemma mod_div_field: "((x :: nat) mod 2 ^ 32) div 2 ^ 27 = (x div 2 ^ 27) mod 32"
proof -
  have "((x :: nat) mod 2 ^ 32) div 2 ^ 27 = drop_bit 27 (take_bit 32 x)"
    by (simp add: take_bit_eq_mod drop_bit_eq_div)
  also have "\<dots> = take_bit 5 (drop_bit 27 x)" by (simp add: drop_bit_take_bit)
  finally show ?thesis by (simp add: take_bit_eq_mod drop_bit_eq_div)
qed

lemma mod32_self:
  assumes "(k :: nat) < 32" and "q < 32"
  shows "(k + q) mod 32 = k \<longleftrightarrow> q = 0"
proof (cases "k + q < 32")
  case True
  then show ?thesis by simp
next
  case False
  then have "(k + q) mod 32 = k + q - 32" using assms by (simp add: mod_if)
  then show ?thesis using assms False by simp
qed

lemma opcode_field_nat:
  assumes "k < 32"
  shows "((k * 2 ^ 27 + n) mod 2 ^ 32) div 2 ^ 27 = k \<longleftrightarrow> n div 2 ^ 27 mod 32 = (0 :: nat)"
proof -
  have "((k * 2 ^ 27 + n) mod 2 ^ 32) div 2 ^ 27 = (k + n div 2 ^ 27) mod 32"
    using mod_div_field [of "k * 2 ^ 27 + n"] by simp
  also have "\<dots> = (k + n div 2 ^ 27 mod 32) mod 32" by (simp add: mod_add_right_eq)
  finally show ?thesis using mod32_self [OF assms, of "n div 2 ^ 27 mod 32"] by simp
qed

lemma unat_u32_div_27: "unat (x :: u32) div 2 ^ 27 < 32"
  using unat_u32_less [of x] by (simp add: less_mult_imp_div_less)

text \<open>C21: in format B the encoder keeps the opcode exactly when the operand is below
  \<open>2^27\<close>: a wider operand (which \<open>parse_argument\<close> accepts, any \<open>u32\<close> being valid)
  carries into the opcode field, in a release build silently and in a debug build
  whenever the addition does not overflow.\<close>

theorem opcode_survives_iff_fits:
  assumes "op < 32" and "encode_instr p [op, num] = Inr w"
  shows "instr_num (decode w) = op \<longleftrightarrow> num < 2 ^ 27"
proof -
  from assms(2) have "add_u32 p (push_bit 27 op) num = Inr w"
    by (simp add: encode_instr_def)
  then have w: "w = push_bit 27 op + num" by (rule add_u32_Inr)
  have ow: "unat op < 32" using assms(1) by (simp add: word_less_nat_alt)
  have pw: "unat (push_bit 27 op) = unat op * 2 ^ 27"
  proof -
    have "unat op * unat (2 ^ 27 :: u32) < 2 ^ LENGTH(32)" using ow by simp
    then show ?thesis by (simp add: push_bit_eq_mult unat_mult_lem [THEN iffD1])
  qed
  have uw: "unat w = (unat op * 2 ^ 27 + unat num) mod 2 ^ 32"
    by (simp add: w unat_word_ariths(1) pw)
  have d: "unat (drop_bit 27 w) = unat w div 2 ^ 27"
    by (simp add: drop_bit_eq_div unat_div)
  have "unat w div 2 ^ 27 < 2 ^ 5"
    using unat_u32_div_27 [of w] by simp
  then have "drop_bit 27 w < 2 ^ 5" using d by (simp add: word_less_nat_alt)
  then have i: "instr_num (decode w) = drop_bit 27 w"
    by (simp add: decode_fields take_bit_fits)
  have n32: "unat num div 2 ^ 27 < 32" by (rule unat_u32_div_27)
  have "instr_num (decode w) = op \<longleftrightarrow> unat (drop_bit 27 w) = unat op"
    by (simp only: i word_unat_eq_iff)
  also have "\<dots> \<longleftrightarrow> unat num div 2 ^ 27 mod 32 = 0"
    using opcode_field_nat [OF ow, of "unat num"] uw d by simp
  also have "\<dots> \<longleftrightarrow> unat num < 2 ^ 27"
    using n32 by (simp add: div_eq_0_iff)
  finally show ?thesis by (simp add: word_less_nat_alt)
qed

text \<open>A \<open>jmp\<close> with one operand is a two-element vector and so a format B word; for a
  value below 8 the decoder reads it as a register \<open>jmp\<close> through register 0 whose link
  register is the value.\<close>

lemma encode_jmp_one_operand:
  assumes a: "a < 2 ^ 3"
  shows "\<exists>w. encode_instr p [15, a] = Inr w \<and> instr_num (decode w) = 15 \<and> imm1 (decode w) = 0 \<and>
    o1 (decode w) = 0 \<and> r2 (decode w) = a"
proof -
  have a5: "a < 2 ^ 5" using a by (rule less_le_trans) simp
  note f = a [THEN slice_below0] a [THEN no_bit_above] a5 [THEN take_bit_fits]
  show ?thesis using a by (simp add: encode_simps decode_simps f)
qed

section \<open>Witnesses\<close>

theorem encode_decode_roundtrip_witness:
  "fields_fit (FmtE 1 1 1 3 3) \<and>
   (\<exists>w. encode_instr Debug (fields_list (FmtE 1 1 1 3 3)) = Inr w \<and>
        read_fields (FmtE 1 1 1 3 3) (decode w) = FmtE 1 1 1 3 3)"
  using encode_decode_roundtrip [of "FmtE 1 1 1 3 3" Debug] by simp

theorem decode_encode_roundtrip_witness:
  "(\<forall>op. FmtD 0 0 0 0 \<noteq> FmtA op) \<and>
   encode_instr Release (fields_list (read_fields (FmtD 0 0 0 0) (decode 0x7C000A63))) = Inr 0x7C000A63"
  using decode_encode_roundtrip [where f = "FmtD 0 0 0 0" and p = Release and w = "0x7C000A63"]
  by simp

theorem opcode_survives_iff_fits_witness:
  "(18 :: u32) < 32 \<and> encode_instr Release [18, 134217728] = Inr 0x98000000 \<and>
   (instr_num (decode 0x98000000) = 18 \<longleftrightarrow> (134217728 :: u32) < 2 ^ 27)"
proof -
  have e: "encode_instr Release [18, 134217728] = Inr 0x98000000"
    by (simp add: encode_instr_def)
  show ?thesis using opcode_survives_iff_fits [of 18 Release 134217728 "0x98000000", OF _ e] e by simp
qed

theorem encoder_release_total_witness:
  "list_all (\<lambda>v. v \<noteq> []) [[1, 1, 0, 2, 3], [0 :: u32]] \<and>
   (\<exists>ws. instr_to_machine_code Release [[1, 1, 0, 2, 3], [0]] = Inr ws \<and> length ws = length [[1, 1, 0, 2, 3], [0 :: u32]])"
  using encoder_release_total [of "[[1, 1, 0, 2, 3], [0]]"] by simp

end
