(* ===== verification/VM.thy ===== *)
theory VM
  imports Decoder
begin

text \<open>
  The executor of \<open>src/src/vm.rs\<close>: the \<open>VM\<close> struct (eight \<open>u32\<close> registers, the
  program, the program counter), \<open>VM::new\<close>, \<open>fetch\<close>, the opcode dispatch \<open>eval\<close>
  and the loop \<open>run\<close>. Every index into the register file is Rust's bounds-checked
  \<open>regs[i]\<close>, every \<open>+\<close>, \<open>-\<close>, \<open>*\<close>, \<open><<\<close> and \<open>>>\<close> is the \<open>u32\<close> operation of
  the build profile, and a panic is the \<open>Inl\<close> result that ends the run.
  \<open>show_regs\<close> and the \<open>println!\<close> traces only print and are left out.
\<close>

unbundle bit_operations_syntax

section \<open>State\<close>

definition NUM_REGS :: nat where
  "NUM_REGS = 8"

record vm =
  regs :: "u32 list"
  program :: "u32 list"
  pc :: u32

definition vm_new :: "u32 list \<Rightarrow> vm" where
  "vm_new prog = \<lparr>regs = replicate NUM_REGS 0, program = prog, pc = 0\<rparr>"

section \<open>Fetch\<close>

text \<open>\<open>self.program[self.pc as usize]\<close>, then \<open>self.pc += 1\<close>.\<close>

definition fetch :: "profile \<Rightarrow> vm \<Rightarrow> rust_panic + (u32 \<times> vm)" where
  "fetch p s =
     sbind (slice_get (program s) (unat (pc s))) (\<lambda>v.
     sbind (add_u32 p (pc s) 1) (\<lambda>pc'. Inr (v, s\<lparr>pc := pc'\<rparr>)))"

section \<open>Dispatch\<close>

text \<open>
  The operator of arms 1 to 12 of \<open>eval\<close>; comparisons are unsigned and give 1 or 0.
  Each arm of the source reads \<open>regs[r1]\<close>, then the second operand (\<open>regs[o2]\<close> when
  \<open>imm2 == 0\<close>, the literal \<open>o2\<close> otherwise), applies its operator and stores into
  \<open>regs[r2]\<close>; Rust evaluates the right-hand side of the assignment before the place, so
  that is the order of the panics.
\<close>

definition alu :: "profile \<Rightarrow> u32 \<Rightarrow> u32 \<Rightarrow> u32 \<Rightarrow> rust_panic + u32" where
  "alu p op x y =
     (if op = 1 then add_u32 p x y
      else if op = 2 then sub_u32 p x y
      else if op = 3 then mul_u32 p x y
      else if op = 4 then div_u32 x y
      else if op = 5 then Inr (x AND y)
      else if op = 6 then Inr (x OR y)
      else if op = 7 then Inr (x XOR y)
      else if op = 8 then shl_u32 p x y
      else if op = 9 then shr_u32 p x y
      else if op = 10 then Inr (if x < y then 1 else 0)
      else if op = 11 then Inr (if x \<le> y then 1 else 0)
      else Inr (if x = y then 1 else 0))"

definition eval_alu :: "profile \<Rightarrow> instruction \<Rightarrow> vm \<Rightarrow> rust_panic + (bool \<times> vm)" where
  "eval_alu p i s =
     sbind (slice_get (regs s) (unat (r1 i))) (\<lambda>x.
     sbind (if imm2 i = 0 then slice_get (regs s) (unat (o2 i)) else Inr (o2 i)) (\<lambda>y.
     sbind (alu p (instr_num i) x y) (\<lambda>v.
     sbind (slice_set (regs s) (unat (r2 i)) v) (\<lambda>rs. Inr (True, s\<lparr>regs := rs\<rparr>)))))"

text \<open>
  \<open>jmp\<close>: \<open>self.regs[r2] = self.pc + 1\<close> with the program counter already advanced by
  \<open>fetch\<close>, then the target, read from \<open>regs[o1]\<close> after that write when \<open>imm1 == 0\<close>.
\<close>

definition eval_jmp :: "profile \<Rightarrow> instruction \<Rightarrow> vm \<Rightarrow> rust_panic + (bool \<times> vm)" where
  "eval_jmp p i s =
     sbind (add_u32 p (pc s) 1) (\<lambda>link.
     sbind (slice_set (regs s) (unat (r2 i)) link) (\<lambda>rs.
     if imm1 i = 0
     then sbind (slice_get rs (unat (o1 i))) (\<lambda>t. Inr (True, s\<lparr>regs := rs, pc := t\<rparr>))
     else Inr (True, s\<lparr>regs := rs, pc := o1 i\<rparr>)))"

definition eval_braz :: "instruction \<Rightarrow> vm \<Rightarrow> rust_panic + (bool \<times> vm)" where
  "eval_braz i s =
     sbind (slice_get (regs s) (unat (r1 i))) (\<lambda>v.
     Inr (True, if v = 0 then s\<lparr>pc := a_field i\<rparr> else s))"

definition eval_branz :: "instruction \<Rightarrow> vm \<Rightarrow> rust_panic + (bool \<times> vm)" where
  "eval_branz i s =
     sbind (slice_get (regs s) (unat (r1 i))) (\<lambda>v.
     Inr (True, if v \<noteq> 0 then s\<lparr>pc := a_field i\<rparr> else s))"

text \<open>
  \<open>eval\<close> returns whether the machine keeps running: \<open>false\<close> for \<open>stop\<close> (0) and
  for an opcode the match does not know (19 to 31); \<open>load\<close>, \<open>store\<close> (13, 14) and
  \<open>scall\<close> (18) only print.
\<close>

definition eval :: "profile \<Rightarrow> instruction \<Rightarrow> vm \<Rightarrow> rust_panic + (bool \<times> vm)" where
  "eval p i s =
     (let op = instr_num i in
      if op = 0 then Inr (False, s)
      else if op \<le> 12 then eval_alu p i s
      else if op = 13 \<or> op = 14 then Inr (True, s)
      else if op = 15 then eval_jmp p i s
      else if op = 16 then eval_braz i s
      else if op = 17 then eval_branz i s
      else if op = 18 then Inr (True, s)
      else Inr (False, s))"

section \<open>The run loop\<close>

text \<open>One iteration of the \<open>loop\<close> of \<open>run\<close>: fetch, decode, evaluate.\<close>

definition cycle :: "profile \<Rightarrow> vm \<Rightarrow> rust_panic + (bool \<times> vm)" where
  "cycle p s = sbind (fetch p s) (\<lambda>(w, s'). eval p (decode w) s')"

text \<open>
  \<open>run\<close> loops until \<open>eval\<close> returns \<open>false\<close> or a panic ends it; a program that
  jumps back forever never returns, which is the value \<open>None\<close>.
\<close>

partial_function (option) run :: "profile \<Rightarrow> vm \<Rightarrow> (rust_panic + vm) option" where
  "run p s =
     (case cycle p s of
        Inl e \<Rightarrow> Some (Inl e)
      | Inr (continue, s') \<Rightarrow> if continue then run p s' else Some (Inr s'))"

text \<open>The same loop with a bound on the number of cycles, for evaluation and induction.\<close>

fun run_fuel :: "nat \<Rightarrow> profile \<Rightarrow> vm \<Rightarrow> (rust_panic + vm) option" where
  "run_fuel 0 p s = None"
| "run_fuel (Suc k) p s =
     (case cycle p s of
        Inl e \<Rightarrow> Some (Inl e)
      | Inr (continue, s') \<Rightarrow> if continue then run_fuel k p s' else Some (Inr s'))"

section \<open>Contracts and invariants\<close>

text \<open>
  The states reachable from \<open>VM::new\<close> by cycles that keep running form an inductive
  set. A safe program names only existing registers in the fields its opcodes read or
  write, branches to addresses within the program or just past it, and uses only the
  immediate form of \<open>jmp\<close>; its reachable states keep the invariant \<open>vm_inv\<close>: the
  loaded program, eight registers, and a program counter at most the program's length.
  The panics that are left are the arithmetic ones and running off the end.
\<close>

inductive reachable :: "profile \<Rightarrow> u32 list \<Rightarrow> vm \<Rightarrow> bool" for p prog where
  start: "reachable p prog (vm_new prog)"
| step: "reachable p prog s \<Longrightarrow> cycle p s = Inr (True, s') \<Longrightarrow> reachable p prog s'"

definition safe_word :: "nat \<Rightarrow> u32 \<Rightarrow> bool" where
  "safe_word len w =
     (let i = decode w; op = instr_num i in
      (op \<noteq> 0 \<and> op \<le> 12 \<longrightarrow>
         unat (r1 i) < NUM_REGS \<and> unat (r2 i) < NUM_REGS \<and> (imm2 i = 0 \<longrightarrow> unat (o2 i) < NUM_REGS)) \<and>
      (op = 16 \<or> op = 17 \<longrightarrow> unat (r1 i) < NUM_REGS \<and> unat (a_field i) \<le> len) \<and>
      (op = 15 \<longrightarrow> unat (r2 i) < NUM_REGS \<and> imm1 i \<noteq> 0 \<and> unat (o1 i) \<le> len))"

definition safe_program :: "u32 list \<Rightarrow> bool" where
  "safe_program prog \<longleftrightarrow> length prog < 2 ^ 32 \<and> (\<forall>w\<in>set prog. safe_word (length prog) w)"

definition arith_panic :: "rust_panic \<Rightarrow> bool" where
  "arith_panic e \<longleftrightarrow> e \<in> {AddOverflow, SubOverflow, MulOverflow, DivByZero, ShlOverflow, ShrOverflow}"

definition vm_inv :: "u32 list \<Rightarrow> vm \<Rightarrow> bool" where
  "vm_inv prog s \<longleftrightarrow> program s = prog \<and> length (regs s) = NUM_REGS \<and> unat (pc s) \<le> length prog"

text \<open>
  The contract of the arithmetic and comparison arms (opcodes 1 to 12) in the spec's
  terms: unsigned 32-bit values read as naturals, results reduced modulo \<open>2^32\<close>,
  \<open>None\<close> for the fatal division by zero. Shift amounts are taken modulo 32, which is
  what the code does without overflow checks (the spec does not say).
\<close>

definition alu_nat :: "nat \<Rightarrow> nat \<Rightarrow> nat \<Rightarrow> nat option" where
  "alu_nat op x y =
     (if op = 1 then Some ((x + y) mod 2 ^ 32)
      else if op = 2 then Some ((x + (2 ^ 32 - y)) mod 2 ^ 32)
      else if op = 3 then Some ((x * y) mod 2 ^ 32)
      else if op = 4 then (if y = 0 then None else Some (x div y))
      else if op = 5 then Some (x AND y)
      else if op = 6 then Some (x OR y)
      else if op = 7 then Some (x XOR y)
      else if op = 8 then Some ((x * 2 ^ (y mod 32)) mod 2 ^ 32)
      else if op = 9 then Some (x div 2 ^ (y mod 32))
      else if op = 10 then Some (of_bool (x < y))
      else if op = 11 then Some (of_bool (x \<le> y))
      else Some (of_bool (x = y)))"

text \<open>A straight-line program: no jump or branch, and \<open>stop\<close> as its last word.\<close>

definition straight_op :: "u32 \<Rightarrow> bool" where
  "straight_op op \<longleftrightarrow> (1 \<le> op \<and> op \<le> 14) \<or> op = 18"

definition straight_line :: "u32 list \<Rightarrow> bool" where
  "straight_line prog \<longleftrightarrow>
     prog \<noteq> [] \<and> length prog < 2 ^ 32 \<and> instr_num (decode (last prog)) = 0 \<and>
     (\<forall>w \<in> set (butlast prog). straight_op (instr_num (decode w)))"

text \<open>
  Programs whose every jump goes forward: each word at address \<open>k\<close> is not a control
  transfer, or a \<open>braz\<close>/\<open>branz\<close> to an address above \<open>k\<close>, or an immediate \<open>jmp\<close> to
  an address above \<open>k\<close>. (A register \<open>jmp\<close> may go anywhere.)
\<close>

definition forward_op :: "nat \<Rightarrow> u32 \<Rightarrow> bool" where
  "forward_op k w =
     (let i = decode w; op = instr_num i in
      op \<le> 14 \<or> op = 18 \<or> 19 \<le> op \<or>
      ((op = 16 \<or> op = 17) \<and> k < unat (a_field i)) \<or>
      (op = 15 \<and> imm1 i \<noteq> 0 \<and> k < unat (o1 i)))"

definition forward_only :: "u32 list \<Rightarrow> bool" where
  "forward_only prog \<longleftrightarrow> length prog < 2 ^ 32 \<and> (\<forall>k < length prog. forward_op k (prog ! k))"

section \<open>The fuelled loop and the loop agree\<close>

lemma vm_new_eq: "vm_new prog = \<lparr>regs = [0, 0, 0, 0, 0, 0, 0, 0], program = prog, pc = 0\<rparr>"
  by (simp add: vm_new_def NUM_REGS_def numeral_eq_Suc)

lemma run_fuel_mono:
  "run_fuel k p s = Some r \<Longrightarrow> k \<le> k' \<Longrightarrow> run_fuel k' p s = Some r"
proof (induction k arbitrary: k' s)
  case 0
  then show ?case by simp
next
  case (Suc k)
  then obtain k'' where k': "k' = Suc k''" and "k \<le> k''"
    by (cases k') auto
  with Suc show ?case
    by (auto split: sum.splits prod.splits if_splits)
qed


lemma run_fuel_Suc_panic: "cycle p s = Inl e \<Longrightarrow> run_fuel (Suc k) p s = Some (Inl e)"
  by simp

lemma run_fuel_run: "run_fuel k p s = Some r \<Longrightarrow> run p s = Some r"
proof (induction k arbitrary: s)
  case 0
  then show ?case by simp
next
  case (Suc k)
  then show ?case
    by (subst run.simps) (auto split: sum.splits prod.splits if_splits)
qed

lemma run_run_fuel:
  assumes "run p s = Some r"
  shows "\<exists>k. run_fuel k p s = Some r"
proof (rule run.raw_induct [where P = "\<lambda>p s r. \<exists>k. run_fuel k p s = Some r", OF _ assms])
  fix f :: "profile \<Rightarrow> vm \<Rightarrow> (rust_panic + vm) option" and p s r
  assume IH: "\<And>p s r. f p s = Some r \<Longrightarrow> \<exists>k. run_fuel k p s = Some r"
    and eq: "(case cycle p s of Inl e \<Rightarrow> Some (Inl e)
              | Inr (continue, s') \<Rightarrow> if continue then f p s' else Some (Inr s')) = Some r"
  show "\<exists>k. run_fuel k p s = Some r"
  proof (cases "cycle p s")
    case (Inl e)
    with eq have "run_fuel 1 p s = Some r" by simp
    then show ?thesis ..
  next
    case (Inr cs)
    obtain c s' where cs: "cs = (c, s')" by (cases cs)
    show ?thesis
    proof (cases c)
      case True
      with eq Inr cs have "f p s' = Some r" by simp
      then obtain k where "run_fuel k p s' = Some r" using IH by blast
      with Inr cs True have "run_fuel (Suc k) p s = Some r" by simp
      then show ?thesis ..
    next
      case False
      with eq Inr cs have "run_fuel 1 p s = Some r" by simp
      then show ?thesis ..
    qed
  qed
qed

text \<open>The loop returns a result exactly when running it with enough cycles of fuel
  returns that result.\<close>

lemma run_iff_run_fuel: "run p s = Some r \<longleftrightarrow> (\<exists>k. run_fuel k p s = Some r)"
  using run_run_fuel run_fuel_run by blast

section \<open>The invariant\<close>

lemma fetch_Inr:
  "fetch p s = Inr (w, s') \<longleftrightarrow>
     unat (pc s) < length (program s) \<and> w = program s ! unat (pc s) \<and>
     (\<exists>pc'. add_u32 p (pc s) 1 = Inr pc' \<and> s' = s\<lparr>pc := pc'\<rparr>)"
  by (auto simp: fetch_def sum_simps slice_get_eq_Inr)

lemma eval_frame:
  "eval p i s = Inr (c, s') \<Longrightarrow> length (regs s') = length (regs s) \<and> program s' = program s"
  by (auto simp: eval_def eval_alu_def eval_jmp_def eval_braz_def eval_branz_def Let_def
      sum_simps slice_set_eq_Inr split: if_splits)

section \<open>Arithmetic against its contract\<close>

lemma nat_and_31: "(n :: nat) AND 31 = n mod 32"
proof -
  have "mask 5 = (31 :: nat)" by (simp add: mask_eq_exp_minus_1)
  then show ?thesis using take_bit_eq_mask [of 5 n] take_bit_eq_mod [of 5 n] by simp
qed

lemma unat_sub_u32: "unat ((x :: u32) - y) = (unat x + (2 ^ 32 - unat y)) mod 2 ^ 32"
proof -
  have x: "unat x < 2 ^ 32" and y: "unat y < 2 ^ 32"
    using unsigned_less [of x] unsigned_less [of y] by simp_all
  show ?thesis
  proof (cases "unat y \<le> unat x")
    case True
    have "(unat x - unat y + 2 ^ 32) mod 2 ^ 32 = unat x - unat y" using x by simp
    moreover have "unat x + (2 ^ 32 - unat y) = unat x - unat y + 2 ^ 32" using True y by simp
    ultimately have "(unat x + (2 ^ 32 - unat y)) mod 2 ^ 32 = unat x - unat y" by metis
    with True show ?thesis by (simp add: unat_sub_if_size word_size)
  next
    case False
    with x y show ?thesis by (simp add: unat_sub_if_size word_size)
  qed
qed

lemma unat_mod_u32 [simp]: "unat (x :: u32) mod 4294967296 = unat x"
proof -
  have "unat x < 4294967296" using unsigned_less [of x] by simp
  then show ?thesis by simp
qed

lemma op_1_12_cases:
  assumes "1 \<le> op" and "op \<le> (12 :: u32)"
  shows "op = 1 \<or> op = 2 \<or> op = 3 \<or> op = 4 \<or> op = 5 \<or> op = 6 \<or> op = 7 \<or> op = 8 \<or>
    op = 9 \<or> op = 10 \<or> op = 11 \<or> op = 12"
proof -
  have "unat op \<in> {1..12}" using assms by (simp add: word_le_nat_alt)
  then have "unat op = 1 \<or> unat op = 2 \<or> unat op = 3 \<or> unat op = 4 \<or> unat op = 5 \<or>
    unat op = 6 \<or> unat op = 7 \<or> unat op = 8 \<or> unat op = 9 \<or> unat op = 10 \<or>
    unat op = 11 \<or> unat op = 12" by (simp only: atLeastAtMost_iff) arith
  then show ?thesis by (simp add: word_unat_eq_iff)
qed

text \<open>C2: in a release build the arithmetic and comparison arms (opcodes 1 to 12)
  implement their contract on unsigned naturals: results modulo 2^32, unsigned comparisons
  giving 1 or 0, shifts by the amount modulo 32, and division by zero the only failure.\<close>

lemma alu_Release_refines:
  assumes "1 \<le> op" "op \<le> 12"
  shows "alu_nat (unat op) (unat x) (unat y) =
           (case alu Release op x y of Inl _ \<Rightarrow> None | Inr v \<Rightarrow> Some (unat v))"
  using op_1_12_cases [OF assms]
    by (elim disjE) (auto simp: alu_nat_def alu_def u32_op_defs unat_word_ariths(1,2) unat_div
        unat_sub_u32 unsigned_and_eq unsigned_or_eq unsigned_xor_eq nat_and_31 unsigned_push_bit_eq
        unsigned_drop_bit_eq take_bit_eq_mod push_bit_eq_mult [where 'a = nat]
        drop_bit_eq_div [where 'a = nat] word_less_nat_alt word_le_nat_alt unat_eq_zero word_unat_eq_iff [symmetric])
lemma alu_Debug_Release: "alu Debug op x y = Inr v \<Longrightarrow> alu Release op x y = Inr v"
  by (simp add: alu_def ops_Debug_Release split del: if_split split: if_split_asm)
    (metis add_u32_Inr)

text \<open>C12: in a debug build an arithmetic arm that does not panic gives the release
  result, and add, sub and mul give the exact unbounded result (no wrap-around).\<close>

theorem alu_Debug_exact:
  assumes "alu Debug op x y = Inr v"
  shows "alu Release op x y = Inr v \<and>
    (op = 1 \<longrightarrow> unat v = unat x + unat y) \<and>
    (op = 2 \<longrightarrow> unat v + unat y = unat x) \<and>
    (op = 3 \<longrightarrow> unat v = unat x * unat y)"
  using assms alu_Debug_Release [OF assms]
  by (auto simp: alu_def dest: add_u32_Inr_unat sub_u32_Inr_unat mul_u32_Inr_unat)

text \<open>C22: an arithmetic instruction whose destination field names a register outside
  the file (8 to 31: the field has five bits, the file eight registers) never stores: it
  reads its sources, and then panics with the operator's own panic if the operator
  panics (division by zero, overflow in a debug build), and otherwise with an index out
  of bounds on the destination. This holds for the register and the immediate form.\<close>

theorem alu_bad_dest_register_panics:
  assumes "unat (r1 i) < length (regs s)" and "imm2 i = 0 \<Longrightarrow> unat (o2 i) < length (regs s)"
    and "length (regs s) \<le> unat (r2 i)"
  shows "eval_alu p i s =
    (case alu p (instr_num i) (regs s ! unat (r1 i)) (if imm2 i = 0 then regs s ! unat (o2 i) else o2 i) of
       Inl e \<Rightarrow> Inl e
     | Inr _ \<Rightarrow> Inl (IndexOutOfBounds (length (regs s)) (unat (r2 i))))"
  using assms by (cases "imm2 i = 0") (auto simp: eval_alu_def slice_set_def split: sum.split)

section \<open>Control flow\<close>

lemma eval_alu_pc: "eval_alu p i s = Inr (c, s') \<Longrightarrow> c \<and> pc s' = pc s \<and> program s' = program s"
  by (auto simp: eval_alu_def sum_simps)

lemma cycle_Inr:
  "cycle p s = Inr (c, s') \<longleftrightarrow>
     unat (pc s) < length (program s) \<and>
     (\<exists>pc'. add_u32 p (pc s) 1 = Inr pc' \<and>
        eval p (decode (program s ! unat (pc s))) (s\<lparr>pc := pc'\<rparr>) = Inr (c, s'))"
  by (auto simp: cycle_def sum_simps fetch_Inr)

text \<open>C8: a jmp stores in its link register the address of the jmp plus two, not the
  address of the next instruction, because the program counter was already advanced by
  fetch.\<close>

theorem jmp_link_is_pc_plus_2:
  assumes "cycle p s = Inr (c, s')"
    and "instr_num (decode (program s ! unat (pc s))) = 15"
  shows "c \<and> regs s' ! unat (r2 (decode (program s ! unat (pc s)))) = pc s + 2"
proof -
  let ?i = "decode (program s ! unat (pc s))"
  from assms(1) obtain pc' where pc': "add_u32 p (pc s) 1 = Inr pc'"
    and ev: "eval p ?i (s\<lparr>pc := pc'\<rparr>) = Inr (c, s')"
    by (auto simp: cycle_Inr)
  from ev assms(2) have j: "eval_jmp p ?i (s\<lparr>pc := pc'\<rparr>) = Inr (c, s')"
    by (simp add: eval_def)
  then obtain link rs where "add_u32 p pc' 1 = Inr link"
    and rs: "slice_set (regs s) (unat (r2 ?i)) link = Inr rs"
    and "c \<and> regs s' = rs"
    by (auto simp: eval_jmp_def sum_simps split: if_splits)
  with pc' show ?thesis
    by (auto simp: slice_set_eq_Inr dest!: add_u32_Inr)
qed

lemma u32_13_14: "(op :: u32) \<le> 14 \<Longrightarrow> \<not> op \<le> 12 \<Longrightarrow> op = 13 \<or> op = 14"
  by (simp add: word_le_nat_alt word_unat_eq_iff) arith

lemma cycle_straight:
  assumes "cycle p s = Inr (c, s')" and "straight_op (instr_num (decode (program s ! unat (pc s))))"
  shows "c \<and> pc s' = pc s + 1 \<and> program s' = program s"
proof -
  let ?i = "decode (program s ! unat (pc s))"
  from assms(1) obtain pc' where pc': "add_u32 p (pc s) 1 = Inr pc'"
    and ev: "eval p ?i (s\<lparr>pc := pc'\<rparr>) = Inr (c, s')"
    by (auto simp: cycle_Inr)
  from assms(2) ev show ?thesis using pc'
    by (auto simp: eval_def straight_op_def Let_def split: if_splits
        dest!: eval_alu_pc add_u32_Inr u32_13_14)
qed

lemma cycle_stop:
  assumes "cycle p s = Inr (c, s')" and "instr_num (decode (program s ! unat (pc s))) = 0"
  shows "\<not> c \<and> pc s' = pc s + 1"
  using assms by (auto simp: cycle_Inr eval_def dest!: add_u32_Inr)

lemma straight_line_at:
  assumes "straight_line prog" and "k < length prog"
  shows "if k = length prog - 1 then instr_num (decode (prog ! k)) = 0
         else straight_op (instr_num (decode (prog ! k)))"
proof (cases "k = length prog - 1")
  case True
  with assms show ?thesis by (metis straight_line_def last_conv_nth)
next
  case False
  with assms(2) have "prog ! k = butlast prog ! k" and "k < length (butlast prog)"
    by (simp_all add: nth_butlast)
  then have "prog ! k \<in> set (butlast prog)" by (metis nth_mem)
  with False assms(1) show ?thesis by (simp add: straight_line_def)
qed

lemma unat_pc_Suc:
  "unat (x :: u32) < n \<Longrightarrow> n < 2 ^ 32 \<Longrightarrow> unat (x + 1) = Suc (unat x)"
  by (simp add: unat_word_ariths(1))

lemma straight_run_fuel:
  assumes "straight_line (program s)" and "unat (pc s) < length (program s)"
    and "n = length (program s) - unat (pc s)"
  shows "run_fuel n p s \<noteq> None \<and>
    (\<forall>s'. run_fuel n p s = Some (Inr s') \<longrightarrow>
       unat (pc s') = length (program s) \<and> run_fuel (n - 1) p s = None)"
  using assms
proof (induction n arbitrary: s)
  case 0
  then show ?case by simp
next
  case (Suc n)
  let ?prog = "program s"
  have len: "length ?prog < 2 ^ 32" using Suc.prems(1) by (simp add: straight_line_def)
  note at = straight_line_at [OF Suc.prems(1) Suc.prems(2)]
  show ?case
  proof (cases "cycle p s")
    case (Inl e)
    then show ?thesis by simp
  next
    case (Inr cs)
    then obtain c s1 where cyc: "cycle p s = Inr (c, s1)" by (cases cs) auto
    show ?thesis
    proof (cases "unat (pc s) = length ?prog - 1")
      case True
      with at have "instr_num (decode (?prog ! unat (pc s))) = 0" by simp
      with cyc have "\<not> c \<and> pc s1 = pc s + 1" by (rule cycle_stop)
      with True Suc.prems(2,3) len cyc show ?thesis by (simp add: unat_pc_Suc)
    next
      case False
      with at have "straight_op (instr_num (decode (?prog ! unat (pc s))))" by simp
      with cyc have c: "c \<and> pc s1 = pc s + 1 \<and> program s1 = ?prog"
        by (rule cycle_straight)
      with False Suc.prems(2) len have pc1: "unat (pc s1) = Suc (unat (pc s))"
        by (simp add: unat_pc_Suc)
      with False Suc.prems(2,3) c have lt: "unat (pc s1) < length (program s1)"
        and nn: "n = length (program s1) - unat (pc s1)" by simp_all
      from c Suc.prems(1) have sl: "straight_line (program s1)" by simp
      note IH = Suc.IH [OF sl lt nn]
      from False Suc.prems(2,3) obtain m where n: "n = Suc m" by (cases n) auto
      with IH cyc c show ?thesis by auto
    qed
  qed
qed

lemma fetch_ok:
  "unat (pc s) < length (program s) \<Longrightarrow> length (program s) < 2 ^ 32 \<Longrightarrow>
   fetch p s = Inr (program s ! unat (pc s), s\<lparr>pc := pc s + 1\<rparr>)"
  by (simp add: fetch_def add_u32_no_overflow)

text \<open>One cycle on an arithmetic instruction whose registers exist: the operator applied
  to \<open>regs[r1]\<close> and the second operand, the result stored in \<open>regs[r2]\<close>, the program
  counter advanced by one.\<close>

lemma cycle_alu:
  assumes "unat (pc s) < length (program s)" and "length (program s) < 2 ^ 32"
    and i: "decode (program s ! unat (pc s)) = i"
    and op: "1 \<le> instr_num i" "instr_num i \<le> 12"
    and rs: "unat (r1 i) < length (regs s)" "unat (r2 i) < length (regs s)"
    and o: "imm2 i = 0 \<Longrightarrow> unat (o2 i) < length (regs s)"
  shows "cycle p s =
    sbind (alu p (instr_num i) (regs s ! unat (r1 i)) (if imm2 i = 0 then regs s ! unat (o2 i) else o2 i))
      (\<lambda>v. Inr (True, s\<lparr>pc := pc s + 1, regs := (regs s)[unat (r2 i) := v]\<rparr>))"
  using assms
  by (cases "imm2 i = 0")
     (auto simp: cycle_def fetch_ok eval_def eval_alu_def Let_def
      intro!: arg_cong [where f = "sbind _"] ext)

text \<open>C3: a div instruction whose divisor register holds 0 ends the run with the
  division-by-zero panic, before any register is written.\<close>

theorem div_by_zero_panics:
  assumes "unat (pc s) < length (program s)" and "length (program s) < 2 ^ 32"
    and "instr_num (decode (program s ! unat (pc s))) = 4"
    and "imm2 (decode (program s ! unat (pc s))) = 0"
    and "unat (r1 (decode (program s ! unat (pc s)))) < length (regs s)"
    and "unat (o2 (decode (program s ! unat (pc s)))) < length (regs s)"
    and "regs s ! unat (o2 (decode (program s ! unat (pc s)))) = 0"
  shows "run p s = Some (Inl DivByZero)"
  using assms
  by (subst run.simps) (simp add: cycle_def fetch_ok eval_def eval_alu_def alu_def div_u32_def)

text \<open>C4: a program without jumps or branches that ends with stop always returns:
  within as many cycles as it has words, and when it halts normally it has executed
  exactly that many cycles and stopped at the end.\<close>

theorem straight_line_halts:
  assumes "straight_line prog"
  shows "\<exists>r. run p (vm_new prog) = Some r \<and> run_fuel (length prog) p (vm_new prog) = Some r \<and>
    (\<forall>s. r = Inr s \<longrightarrow> unat (pc s) = length prog \<and> run_fuel (length prog - 1) p (vm_new prog) = None)"
proof -
  have sl: "straight_line (program (vm_new prog))" and lt: "unat (pc (vm_new prog)) < length (program (vm_new prog))"
    using assms by (simp_all add: vm_new_def straight_line_def)
  have n: "length prog = length (program (vm_new prog)) - unat (pc (vm_new prog))"
    by (simp add: vm_new_def)
  from straight_run_fuel [OF sl lt n, of p] obtain r
    where r: "run_fuel (length prog) p (vm_new prog) = Some r"
      and post: "\<forall>s'. r = Inr s' \<longrightarrow> unat (pc s') = length (program (vm_new prog)) \<and>
                   run_fuel (length prog - 1) p (vm_new prog) = None"
    by auto
  from r have "run p (vm_new prog) = Some r" by (rule run_fuel_run)
  with r post show ?thesis by (auto simp: vm_new_def)
qed

section \<open>Safe programs\<close>

lemma alu_Inl: "alu p op x y = Inl e \<Longrightarrow> arith_panic e"
  by (auto simp: alu_def u32_op_defs arith_panic_def split: if_splits)

lemma eval_inv:
  assumes "safe_word (length prog) w" and "vm_inv prog s" and "unat (pc s) < length prog"
    and "length prog < 2 ^ 32"
    and "eval p (decode w) (s\<lparr>pc := pc s + 1\<rparr>) = Inr (c, s')"
  shows "vm_inv prog s'"
proof -
  have pc1: "unat (pc s + 1) = Suc (unat (pc s))"
    using assms(3,4) by (simp add: unat_pc_Suc)
  show ?thesis
    using assms pc1
    by (auto simp: eval_def Let_def safe_word_def vm_inv_def eval_alu_def eval_jmp_def eval_braz_def
        eval_branz_def sum_simps slice_set_eq_Inr slice_get_eq_Inr dest: add_u32_Inr split: if_splits)
qed

lemma cycle_inv:
  assumes "safe_program prog" and "vm_inv prog s" and "cycle p s = Inr (c, s')"
  shows "vm_inv prog s'"
proof -
  from assms(3) obtain w s1 where f: "fetch p s = Inr (w, s1)" and ev1: "eval p (decode w) s1 = Inr (c, s')"
    by (auto simp: cycle_def sum_simps)
  from f obtain pc' where lt: "unat (pc s) < length (program s)" and w: "w = program s ! unat (pc s)"
    and s1: "s1 = s\<lparr>pc := pc'\<rparr>" and pc': "pc' = pc s + 1"
    by (auto simp: fetch_Inr dest: add_u32_Inr)
  from ev1 s1 have ev: "eval p (decode w) (s\<lparr>pc := pc'\<rparr>) = Inr (c, s')" by simp
  from assms(1,2) lt have "safe_word (length prog) w" "length prog < 2 ^ 32"
    by (auto simp: w vm_inv_def safe_program_def)
  with assms(2) lt ev pc' show ?thesis
    by (intro eval_inv [of prog w s p c s']) (auto simp: vm_inv_def)
qed

lemma cycle_safe:
  assumes "safe_program prog" and "vm_inv prog s" and "cycle p s = Inl e"
  shows "arith_panic e \<or> e = IndexOutOfBounds (length prog) (length prog)"
proof (cases "unat (pc s) < length prog")
  case False
  with assms(2) have "unat (pc s) = length prog" by (simp add: vm_inv_def)
  with assms(2,3) show ?thesis
    by (auto simp: cycle_def fetch_def slice_get_def vm_inv_def)
next
  case True
  let ?w = "program s ! unat (pc s)"
  from assms(1,2) True have sw: "safe_word (length prog) ?w" and len: "length prog < 2 ^ 32"
    by (auto simp: vm_inv_def safe_program_def)
  with assms(2) True have f: "fetch p s = Inr (?w, s\<lparr>pc := pc s + 1\<rparr>)"
    by (simp add: fetch_ok vm_inv_def)
  with assms(3) have ev: "eval p (decode ?w) (s\<lparr>pc := pc s + 1\<rparr>) = Inl e"
    by (simp add: cycle_def)
  from sw ev assms(2) show ?thesis
    by (auto simp: eval_def Let_def safe_word_def vm_inv_def eval_alu_def eval_jmp_def eval_braz_def
        eval_branz_def sum_simps slice_set_def slice_get_def add_u32_def arith_panic_def
        dest: alu_Inl split: if_splits)
qed

lemma reachable_vm_inv:
  "reachable p prog s \<Longrightarrow> safe_program prog \<Longrightarrow> vm_inv prog s"
proof (induction rule: reachable.induct)
  case start
  then show ?case by (simp add: vm_inv_def vm_new_def NUM_REGS_def)
next
  case (step s s')
  then show ?case by (blast intro: cycle_inv)
qed

text \<open>C9: in every state reachable from \<open>VM::new\<close> running a safe program, the next
  cycle can only panic with an arithmetic panic (overflow in a debug build, division by
  zero) or by fetching just past the end of the program: no register index and no fetch
  inside the program is ever out of bounds.\<close>

theorem reachable_safe:
  "safe_program prog \<Longrightarrow> reachable p prog s \<Longrightarrow> cycle p s = Inl e \<Longrightarrow>
   arith_panic e \<or> e = IndexOutOfBounds (length prog) (length prog)"
  using cycle_safe reachable_vm_inv by blast


section \<open>Debug and release builds\<close>





section \<open>Programs whose jumps go forward\<close>

lemma cycle_forward:
  assumes "cycle p s = Inr (True, s')" and "forward_op (unat (pc s)) (program s ! unat (pc s))"
    and "unat (pc s) < length (program s)" and "length (program s) < 2 ^ 32"
  shows "program s' = program s \<and> unat (pc s) < unat (pc s')"
proof -
  let ?i = "decode (program s ! unat (pc s))"
  let ?s1 = "s\<lparr>pc := pc s + 1\<rparr>"
  have ev: "eval p ?i ?s1 = Inr (True, s')"
    using assms(1,3,4) by (simp add: cycle_def fetch_ok)
  have pc1: "unat (pc ?s1) = Suc (unat (pc s))"
    using assms(3,4) by (simp add: unat_pc_Suc)
  have prog: "program s' = program s"
    using eval_frame [OF ev] by simp
  have "unat (pc s) < unat (pc s')"
  proof (cases "instr_num ?i \<le> 12")
    case True
    with ev have "instr_num ?i \<noteq> 0 \<Longrightarrow> pc s' = pc ?s1"
      by (auto simp: eval_def dest: eval_alu_pc)
    moreover have "instr_num ?i \<noteq> 0" using ev by (auto simp: eval_def)
    ultimately show ?thesis using pc1 by simp
  next
    case False
    then show ?thesis
      using ev assms(2) pc1
      by (auto simp: eval_def forward_op_def Let_def eval_jmp_def eval_braz_def eval_branz_def
          sum_simps slice_set_eq_Inr slice_get_eq_Inr split: if_splits)
  qed
  with prog show ?thesis by simp
qed

lemma forward_run_fuel:
  assumes "forward_only (program s)" and "length (program s) - unat (pc s) \<le> n"
  shows "run_fuel (Suc n) p s \<noteq> None"
  using assms
proof (induction n arbitrary: s)
  case 0
  then have "\<not> unat (pc s) < length (program s)" by simp
  then have "cycle p s = Inl (IndexOutOfBounds (length (program s)) (unat (pc s)))"
    by (simp add: cycle_def fetch_def slice_get_def)
  then show ?case by simp
next
  case (Suc n)
  show ?case
  proof (cases "cycle p s")
    case (Inl e)
    then show ?thesis by simp
  next
    case (Inr cs)
    then obtain c s' where cs: "cycle p s = Inr (c, s')" by (cases cs) auto
    show ?thesis
    proof (cases c)
      case False
      with cs show ?thesis by simp
    next
      case True
      have lt: "unat (pc s) < length (program s)"
        using cs True by (auto simp: cycle_def fetch_Inr sum_simps)
      with Suc.prems have f: "forward_op (unat (pc s)) (program s ! unat (pc s))"
        and len: "length (program s) < 2 ^ 32"
        by (simp_all add: forward_only_def)
      from cs True have "cycle p s = Inr (True, s')" by simp
      from cycle_forward [OF this f lt len]
      have "program s' = program s \<and> unat (pc s) < unat (pc s')" .
      with Suc.prems have "forward_only (program s')" "length (program s') - unat (pc s') \<le> n"
        by auto
      from Suc.IH [OF this] cs True show ?thesis by simp
    qed
  qed
qed

text \<open>C10: a program whose jumps and branches all go forward (and has fewer than
  \<open>2^32\<close> words) always returns, halting or panicking, within one cycle more than its
  length: every cycle that continues moves the program counter up.\<close>

theorem forward_only_terminates:
  assumes "forward_only prog"
  shows "\<exists>r. run p (vm_new prog) = Some r \<and> run_fuel (Suc (length prog)) p (vm_new prog) = Some r"
proof -
  have "run_fuel (Suc (length prog)) p (vm_new prog) \<noteq> None"
    using forward_run_fuel [of "vm_new prog" "length prog" p] assms by (simp add: vm_new_def)
  then obtain r where "run_fuel (Suc (length prog)) p (vm_new prog) = Some r" by blast
  with run_fuel_run show ?thesis by blast
qed

section \<open>Branches and the opcodes without effect\<close>

text \<open>C17: \<open>braz\<close> and \<open>branz\<close> move the program counter to the address field exactly
  when the register is zero (\<open>braz\<close>) or non-zero (\<open>branz\<close>), and otherwise to the next
  instruction; nothing else changes.\<close>

theorem cycle_branch:
  assumes "unat (pc s) < length (program s)" and "length (program s) < 2 ^ 32"
    and i: "decode (program s ! unat (pc s)) = i" and op: "instr_num i = 16 \<or> instr_num i = 17"
    and r: "unat (r1 i) < length (regs s)"
  shows "cycle p s =
    Inr (True, s\<lparr>pc := if (regs s ! unat (r1 i) = 0) = (instr_num i = 16) then a_field i else pc s + 1\<rparr>)"
  using assms
  by (auto simp: cycle_def fetch_ok eval_def eval_braz_def eval_branz_def Let_def)

lemma u32_19_le_12: "19 \<le> (x :: u32) \<Longrightarrow> x \<le> 12 \<Longrightarrow> False"
  by (simp add: word_le_nat_alt)

text \<open>C18: \<open>load\<close>, \<open>store\<close> and \<open>scall\<close> only advance the program counter and the
  machine goes on; \<open>stop\<close> and the unknown opcodes 19 to 31 advance it and halt. None of
  them touches a register.\<close>

theorem cycle_no_effect_ops:
  assumes "unat (pc s) < length (program s)" and "length (program s) < 2 ^ 32"
    and op: "instr_num (decode (program s ! unat (pc s))) \<in> {0, 13, 14, 18} \<or>
             19 \<le> instr_num (decode (program s ! unat (pc s)))"
  shows "cycle p s =
    Inr (instr_num (decode (program s ! unat (pc s))) \<in> {13, 14, 18}, s\<lparr>pc := pc s + 1\<rparr>)"
  using assms
  by (auto simp: cycle_def fetch_ok eval_def Let_def dest: u32_19_le_12)

section \<open>Witnesses\<close>

theorem alu_Release_refines_witness:
  "(1::u32) \<le> 2 \<and> (2::u32) \<le> 12 \<and>
   alu_nat (unat (2::u32)) (unat (3::u32)) (unat (5::u32)) =
     (case alu Release 2 3 5 of Inl _ \<Rightarrow> None | Inr v \<Rightarrow> Some (unat v))"
  using alu_Release_refines [of 2 3 5] by simp

theorem alu_Debug_exact_witness:
  "alu Debug 1 5 3 = Inr 8 \<and> alu Release 1 5 3 = Inr 8 \<and> unat (8::u32) = unat (5::u32) + unat (3::u32)"
  using alu_Debug_exact [of 1 5 3 8] by (simp add: alu_def add_u32_def)

theorem div_by_zero_panics_witness:
  "run Debug (vm_new [0x20400043]) = Some (Inl DivByZero)"
  by (rule div_by_zero_panics) (simp_all add: vm_new_eq decode_fields)

theorem jmp_link_witness:
  "cycle Release (vm_new [0x7C000023]) =
     Inr (True, \<lparr>regs = [0, 0, 0, 2, 0, 0, 0, 0], program = [0x7C000023], pc = 1\<rparr>) \<and>
   instr_num (decode 0x7C000023) = 15 \<and> unat (r2 (decode 0x7C000023)) = 3"
proof -
  have c: "cycle Release (vm_new [0x7C000023]) =
     Inr (True, \<lparr>regs = [0, 0, 0, 2, 0, 0, 0, 0], program = [0x7C000023], pc = 1\<rparr>)"
    by (simp add: cycle_def fetch_def eval_def eval_jmp_def vm_new_eq decode_fields)
  have op: "instr_num (decode (program (vm_new [0x7C000023]) ! unat (pc (vm_new [0x7C000023])))) = 15"
    by (simp add: vm_new_eq decode_fields)
  from jmp_link_is_pc_plus_2 [OF c op] c show ?thesis
    by (simp add: vm_new_eq decode_fields)
qed

theorem straight_line_halts_witness:
  "straight_line [0x08400043, 0] \<and>
   (\<exists>r. run Release (vm_new [0x08400043, 0]) = Some r \<and>
     run_fuel (length [0x08400043, 0 :: u32]) Release (vm_new [0x08400043, 0]) = Some r \<and>
     (\<forall>s. r = Inr s \<longrightarrow> unat (pc s) = length [0x08400043, 0 :: u32] \<and>
        run_fuel (length [0x08400043, 0 :: u32] - 1) Release (vm_new [0x08400043, 0]) = None))"
proof -
  have sl: "straight_line [0x08400043, 0]"
    by (simp add: straight_line_def straight_op_def decode_fields)
  show ?thesis using straight_line_halts [OF sl, of Release] sl by blast
qed

theorem alu_bad_dest_register_panics_witness:
  "eval_alu Release \<lparr>instr_num = 1, imm1 = 0, o1 = 0, r1 = 1, imm2 = 0, o2 = 2, r2 = 9,
      a_field = 0, n_field = 0\<rparr> (vm_new [0]) = Inl (IndexOutOfBounds 8 9)"
  using alu_bad_dest_register_panics [of
      "\<lparr>instr_num = 1, imm1 = 0, o1 = 0, r1 = 1, imm2 = 0, o2 = 2, r2 = 9, a_field = 0, n_field = 0\<rparr>"
      "vm_new [0]" Release]
  by (simp add: vm_new_eq alu_def)

theorem reachable_safe_witness:
  "safe_program [0x20400043, 0] \<and> reachable Release [0x20400043, 0] (vm_new [0x20400043, 0]) \<and>
   cycle Release (vm_new [0x20400043, 0]) = Inl DivByZero \<and>
   (arith_panic DivByZero \<or> DivByZero = IndexOutOfBounds (length [0x20400043, 0 :: u32]) (length [0x20400043, 0 :: u32]))"
proof -
  have h: "safe_program [0x20400043, 0]" "cycle Release (vm_new [0x20400043, 0]) = Inl DivByZero"
    by (simp_all add: safe_program_def safe_word_def decode_fields NUM_REGS_def
        cycle_def fetch_def eval_def eval_alu_def alu_def div_u32_def vm_new_eq)
  have r: "reachable Release [0x20400043, 0] (vm_new [0x20400043, 0])" by (rule reachable.start)
  show ?thesis using reachable_safe [OF h(1) r h(2)] h r by blast
qed


theorem forward_only_terminates_witness:
  "forward_only [0x80400002, 0x08400043, 0] \<and>
   (\<exists>r. run Release (vm_new [0x80400002, 0x08400043, 0]) = Some r \<and>
        run_fuel (Suc (length [0x80400002, 0x08400043, 0 :: u32])) Release (vm_new [0x80400002, 0x08400043, 0]) = Some r)"
proof -
  have ops: "forward_op 0 0x80400002" "forward_op 1 0x08400043" "forward_op 2 0"
    by (simp_all add: forward_op_def decode_fields)
  have "forward_op k ([0x80400002, 0x08400043, 0] ! k)" if "k < 3" for k
  proof -
    from that have "k = 0 \<or> k = 1 \<or> k = 2" by arith
    with ops show ?thesis by auto
  qed
  then have f: "forward_only [0x80400002, 0x08400043, 0]" by (simp add: forward_only_def)
  show ?thesis using forward_only_terminates [OF f, of Release] f by blast
qed

theorem cycle_branch_witness:
  "cycle Release \<lparr>regs = [0, 0, 0, 0, 0, 0, 0, 0], program = [0x80400002, 0x08400043, 0], pc = 0\<rparr> =
     Inr (True, \<lparr>regs = [0, 0, 0, 0, 0, 0, 0, 0], program = [0x80400002, 0x08400043, 0], pc = 2\<rparr>)"
proof -
  have h: "unat (pc \<lparr>regs = [0, 0, 0, 0, 0, 0, 0, 0], program = [0x80400002, 0x08400043, 0], pc = 0\<rparr>) <
      length (program \<lparr>regs = [0, 0, 0, 0, 0, 0, 0, 0], program = [0x80400002, 0x08400043, 0 :: u32], pc = 0\<rparr>)"
    "length (program \<lparr>regs = [0, 0, 0, 0, 0, 0, 0, 0], program = [0x80400002, 0x08400043, 0 :: u32], pc = 0\<rparr>) < 2 ^ 32"
    "instr_num (decode 0x80400002) = 16 \<or> instr_num (decode 0x80400002) = 17"
    "unat (r1 (decode 0x80400002)) < length (regs \<lparr>regs = [0, 0, 0, 0, 0, 0, 0, 0 :: u32], program = [0x80400002, 0x08400043, 0], pc = 0\<rparr>)"
    by (simp_all add: decode_fields)
  have i: "decode (program \<lparr>regs = [0, 0, 0, 0, 0, 0, 0, 0 :: u32], program = [0x80400002, 0x08400043, 0], pc = 0\<rparr> !
      unat (pc \<lparr>regs = [0, 0, 0, 0, 0, 0, 0, 0 :: u32], program = [0x80400002, 0x08400043, 0 :: u32], pc = 0\<rparr>)) =
      decode 0x80400002" by simp
  show ?thesis using cycle_branch [OF h(1,2) i h(3,4), of Release] by (simp add: decode_fields)
qed

theorem cycle_no_effect_ops_witness:
  "cycle Debug \<lparr>regs = [0, 0, 0, 0, 0, 0, 0, 0], program = [0x68000000], pc = 0\<rparr> =
     Inr (True, \<lparr>regs = [0, 0, 0, 0, 0, 0, 0, 0], program = [0x68000000], pc = 1\<rparr>)"
proof -
  have h: "unat (pc \<lparr>regs = [0, 0, 0, 0, 0, 0, 0, 0 :: u32], program = [0x68000000 :: u32], pc = 0\<rparr>) <
      length (program \<lparr>regs = [0, 0, 0, 0, 0, 0, 0, 0 :: u32], program = [0x68000000 :: u32], pc = 0\<rparr>)"
    "length (program \<lparr>regs = [0, 0, 0, 0, 0, 0, 0, 0 :: u32], program = [0x68000000 :: u32], pc = 0\<rparr>) < 2 ^ 32"
    "instr_num (decode (program \<lparr>regs = [0, 0, 0, 0, 0, 0, 0, 0 :: u32], program = [0x68000000 :: u32], pc = 0\<rparr> !
       unat (pc \<lparr>regs = [0, 0, 0, 0, 0, 0, 0, 0 :: u32], program = [0x68000000 :: u32], pc = 0\<rparr>))) \<in> {0, 13, 14, 18} \<or>
     19 \<le> instr_num (decode (program \<lparr>regs = [0, 0, 0, 0, 0, 0, 0, 0 :: u32], program = [0x68000000 :: u32], pc = 0\<rparr> !
       unat (pc \<lparr>regs = [0, 0, 0, 0, 0, 0, 0, 0 :: u32], program = [0x68000000 :: u32], pc = 0\<rparr>)))"
    by (simp_all add: decode_fields)
  show ?thesis using cycle_no_effect_ops [OF h, of Debug] by (simp add: decode_fields)
qed

end
