(* ===== verification/Simulator.thy ===== *)
theory Simulator
  imports Assembler Encoder VM
begin

text \<open>
  \<open>main\<close> of \<open>src/src/main.rs\<close>: read and normalize the file, parse it, encode it, load
  the words into a fresh machine and run it. The path comes from the command line
  (\<open>Args::parse\<close>, not modelled); the build profile is a parameter.
\<close>

definition assemble :: "profile \<Rightarrow> (string \<rightharpoonup> string) \<Rightarrow> string \<Rightarrow> asm_error + u32 list" where
  "assemble p fs path =
     sbind (read_file fs path) (\<lambda>lines.
     sbind (lines_to_instr p lines) (\<lambda>(instrs, has_stop).
     smap_err AsmPanic (instr_to_machine_code p instrs)))"

definition main_sim :: "profile \<Rightarrow> (string \<rightharpoonup> string) \<Rightarrow> string \<Rightarrow> (asm_error + vm) option" where
  "main_sim p fs path =
     (case assemble p fs path of
        Inl e \<Rightarrow> Some (Inl e)
      | Inr words \<Rightarrow> map_option (smap_err AsmPanic) (run p (vm_new words)))"

text \<open>The definitions to unfold to run the whole simulator on a concrete file.\<close>

lemmas sim_eval_simps = asm_eval_simps read_file_def trim_def is_ws_def encode_instr_def
  cycle_def fetch_def eval_def eval_alu_def eval_jmp_def eval_braz_def eval_branz_def
  alu_def vm_new_eq decode_fields sub_u32_def mul_u32_def div_u32_def add_u32_def

text \<open>A run of the loaded program that finishes within some fuel is the result of
  \<open>main\<close>.\<close>

lemma main_sim_run_fuel:
  "assemble p fs path = Inr words \<Longrightarrow> run_fuel k p (vm_new words) = Some r \<Longrightarrow>
   main_sim p fs path = Some (smap_err AsmPanic r)"
  by (simp add: main_sim_def run_fuel_run)


text \<open>
  A three-operand line through the parser, the encoder and the decoder: the mnemonic's
  opcode, the two register numbers, the immediate flag and the value of the middle
  operand come back out of \<open>decode\<close> in the fields of format E, whenever the
  registers fit their five bits and the operand its sixteen.
\<close>

lemma three_operand_line:
  assumes mn: "map_of OP_CODES mn = Some code" and a: "a < 32" and c: "c < 32"
    and x: "operand_ok labels x" "CHR '' '' \<notin> set (print_operand x)" "CHR '','' \<notin> set (print_operand x)"
    and v: "fst (operand_value labels x) < 2 ^ 16"
  defines "line \<equiv> mn @ CHR '' '' # join '', '' [print_operand (Register a), print_operand x, print_operand (Register c)]"
    and "flag \<equiv> (if snd (operand_value labels x) then 0 else 1 :: u32)"
  shows "lines_loop labels (line # rest) acc hs =
      lines_loop labels rest (acc @ [[code, of_nat a, flag, fst (operand_value labels x), of_nat c]]) (hs \<or> mn = ''stop'') \<and>
    (\<exists>w. encode_instr p [code, of_nat a, flag, fst (operand_value labels x), of_nat c] = Inr w \<and>
      instr_num (decode w) = code \<and> r1 (decode w) = of_nat a \<and> imm2 (decode w) = flag \<and>
      o2 (decode w) = fst (operand_value labels x) \<and> r2 (decode w) = of_nat c)"
proof
  have sp: "split_instruction line = (mn, Some [print_operand (Register a), print_operand x, print_operand (Register c)])"
    unfolding line_def using OP_CODES_names [OF mn] x register_text [of a] register_text [of c]
    by (intro split_instruction_join) auto
  have last: "str_last line = Some (last line)" and "last line \<noteq> CHR '':''"
    using register_text [of c] by (auto simp: line_def str_last_def)
  moreover have "parse_argument (print_operand (Register a)) labels = Inr (of_nat a, True)"
    "parse_argument (print_operand (Register c)) labels = Inr (of_nat c, True)"
    using a c by (simp_all add: parse_argument_register)
  ultimately show "lines_loop labels (line # rest) acc hs =
      lines_loop labels rest (acc @ [[code, of_nat a, flag, fst (operand_value labels x), of_nat c]]) (hs \<or> mn = ''stop'')"
    using sp mn parse_argument_register parse_argument_immediate parse_argument_label x(1)
    by (cases x) (auto simp: unwrap_def instr_operands_def flag_def split: prod.splits)
next
  have "(of_nat a :: u32) < 2 ^ 5" "(of_nat c :: u32) < 2 ^ 5" "(code :: u32) < 2 ^ 5" "flag < 2 ^ 1"
    using a c OP_CODES_names [OF mn] by (simp_all add: flag_def word_less_nat_alt unat_of_nat)
  from encode_fmtE [OF this(3,1,4) v this(2)] show "\<exists>w. encode_instr p [code, of_nat a, flag, fst (operand_value labels x), of_nat c] = Inr w \<and>
      instr_num (decode w) = code \<and> r1 (decode w) = of_nat a \<and> imm2 (decode w) = flag \<and>
      o2 (decode w) = fst (operand_value labels x) \<and> r2 (decode w) = of_nat c" .
qed

end
