(* ===== verification/Spec2Isabelle.thy ===== *)
theory Spec2Isabelle
  imports Simulator
begin

text \<open>
  \<^bold>\<open>SIMJI: an assembler and virtual machine for a 32-bit instruction set.\<close>

  The program (\<open>src/src\<close>) reads an assembly file and normalizes its lines
  (\<open>assembler.rs\<close>, \<open>read_file\<close>), resolves its labels (\<open>get_label_adresses\<close>), parses
  each instruction line into a vector of numbers, the opcode first (\<open>split_instruction\<close>,
  \<open>parse_argument\<close>, \<open>lines_to_instr\<close>), packs each vector into a 32-bit word in one of
  five layouts (\<open>instr_to_machine_code\<close>) and runs the words on a machine with eight
  \<open>u32\<close> registers (\<open>vm.rs\<close>: \<open>VM::new\<close>, \<open>run\<close>, \<open>fetch\<close>, \<open>Instruction::decode\<close>,
  \<open>eval\<close>). \<open>main\<close> in \<open>main.rs\<close> chains these calls. A failed \<open>expect\<close>, \<open>unwrap\<close>,
  bounds check or overflow check is a panic and \<open>exit(1)\<close> an exit; the model makes
  each of them the \<open>Inl\<close> of a sum, so every early end of the program is a value.

  \<^bold>\<open>Theories.\<close>
  \<^item> \<open>Prelude\<close>: the word type \<open>u32\<close>, error propagation through sums (\<open>sbind\<close>), and
    the bit-field lemmas (reading a field is a slice, adding disjoint fields is an or
    without carry) the encoder and decoder proofs are built from.
  \<^item> \<open>Rust_Std\<close>: what the sources take from Rust: \<open>u32\<close> \<open>+ - * / << >>\<close> in a
    debug build (overflow checks: a panic) and a release build (wrap-around, shift amount
    modulo 32), bounds-checked indexing \<open>slice_get\<close>/\<open>slice_set\<close>, \<open>unwrap\<close>, and the
    string operations \<open>trim\<close>, \<open>split\<close>, \<open>join\<close>, \<open>parse::<u32>\<close> on ASCII, with the
    decimal printer \<open>dec_string\<close> that the parser properties are stated with. Every model
    of the repository takes the build profile as a parameter, so each theorem says which
    builds it covers.
  \<^item> \<open>Decoder\<close>: the \<open>Instruction\<close> struct as a record and \<open>decode\<close>, mask then shift
    for each of the nine fields; \<open>decode_fields\<close> gives each field as a slice of the word.
  \<^item> \<open>Encoder\<close>: \<open>encode_instr\<close> is one iteration of the loop of
    \<open>instr_to_machine_code\<close> (the \<open>match instr.len()\<close>, every \<open>+=\<close> checked in a debug
    build, no operand masked), \<open>instr_to_machine_code\<close> the loop. The operand tuples of
    the five formats A to E are the datatype \<open>fields\<close>, with their widths
    \<open>fields_fit\<close> and the fields the decoder reads back, \<open>read_fields\<close>;
    \<open>encode_fmtA\<close> to \<open>encode_fmtE\<close> place and read back each format. The theorems: the
    two round trips, fields that fit come back out of \<open>decode\<close> (C1) and for formats B
    to E any word is the encoding of its decoded fields (C11); a release build never
    panics (C19); in format B the opcode survives exactly when the operand is below
    \<open>2^27\<close> (C21).
  \<^item> \<open>VM\<close>: the \<open>VM\<close> struct as the record \<open>vm\<close>, \<open>vm_new\<close>, \<open>fetch\<close>, the arms of
    \<open>eval\<close> (\<open>alu\<close> the operator of arms 1 to 12, \<open>eval_alu\<close> their reads and store,
    \<open>eval_jmp\<close>, \<open>eval_braz\<close>, \<open>eval_branz\<close>), \<open>cycle\<close> one iteration of the loop of
    \<open>run\<close>, and \<open>run\<close> itself as a \<open>partial_function (option)\<close>: a program that loops
    forever makes \<open>run\<close> \<open>None\<close>, a panic is \<open>Some (Inl e)\<close>, a halt \<open>Some (Inr s)\<close>.
    \<open>run_fuel\<close> is the same loop bounded by a number of cycles (\<open>run_iff_run_fuel\<close>: the
    two agree), so the termination theorems name their fuel: the length of a
    straight-line program (C4), one more than the length of a program whose jumps go
    forward (C10), because every cycle that goes on moves \<open>pc\<close> up by at least one and
    the cycle after the last word halts or panics. The step relation \<open>reachable\<close> is an
    inductive predicate; by rule induction the states of a \<open>safe_program\<close> keep
    \<open>vm_inv\<close> and can only panic arithmetically or past the end (C9). The other lemmas:
    the release ALU refines an arithmetic contract on naturals (C2), the debug ALU is
    exact where it does not panic (C12) and a debug run that ends normally ends like the
    release run (C16); a zero divisor ends the run with a panic (C3); the link written
    by \<open>jmp\<close> (C8); branches (C17); the opcodes without effect (C18); a destination
    register above 7 panics after the sources are read (C22).
  \<^item> \<open>Assembler\<close>: \<open>OP_CODES\<close> as an association list, \<open>read_file\<close> over a file system
    given as a map from paths to contents, \<open>label_pass\<close> the \<open>for_each\<close> of
    \<open>get_label_adresses\<close>, \<open>split_instruction\<close>, \<open>parse_argument\<close>, \<open>instr_operands\<close>
    the \<open>match args.len()\<close> and \<open>lines_loop\<close> the \<open>for\<close> loop of \<open>lines_to_instr\<close>
    (with \<open>has_stop\<close>). The lemmas: \<open>read_file\<close>'s lines are non-empty and trimmed (C15);
    labels resolve to the address of the next instruction, last definition winning (C6);
    the parser emits one well-shaped vector per instruction line (C7), reads back every
    operand as printed (C13), aborts on an unknown mnemonic (C14), keeps a line with too
    many operands as its opcode alone (C23), and rejects every argument starting with
    \<open>r\<close> that is not a register, labels included (C24), and the spec's \<open>#\<close> immediates
    (C25).
  \<^item> \<open>Simulator\<close>: \<open>assemble\<close> (\<open>main.rs\<close> lines 14 to 16) and \<open>main_sim\<close> (all of
    \<open>main\<close>), with \<open>three_operand_line\<close>: parser, encoder and decoder agree on format E.
  \<^item> This theory: the properties that span the components: an arithmetic line assembled
    and executed computes its operator (C5); a \<open>jmp\<close> written with one operand, as in the
    spec's example, jumps through register 0 and not to its label (C20); \<open>main\<close> returns
    on every file that assembles to a program whose jumps go forward (C26).

  \<^bold>\<open>Not modelled.\<close> The \<open>println!\<close> traces and \<open>show_regs\<close> (output only, which is
  also all that \<open>load\<close>, \<open>store\<close> and \<open>scall\<close> do); the \<open>clap\<close> parsing of \<open>args.rs\<close>,
  whose \<open>debug\<close> flag the program never reads; the \<open>i32\<close> counter \<open>pc\<close> of
  \<open>lines_to_instr\<close>, which is only printed but whose \<open>+= 1\<close> would panic in a debug
  build after \<open>2^31 - 1\<close> instruction lines; white space outside ASCII in \<open>trim\<close>; reading
  a file that is not UTF-8, which is the same error as a missing file in the model.
\<close>

section \<open>Assembling and executing an arithmetic line\<close>

text \<open>C5: an arithmetic or comparison line \<open>mn ra, x, rc\<close> with registers below 8 and
  a middle operand that is a register below 8 or a value below \<open>2^16\<close> is turned by the
  parser into one vector, by the encoder into one word, and one cycle of the machine on
  that word applies the mnemonic's operator to \<open>regs[a]\<close> and the operand's value (the
  register's contents, or the literal or label address itself) and stores the result in
  \<open>regs[c]\<close>: the assembler and the executor agree on format E.\<close>

theorem three_operand_line_runs:
  assumes mn: "map_of OP_CODES mn = Some code" and op: "1 \<le> code" "code \<le> 12"
    and a: "a < 8" and c: "c < 8"
    and x: "operand_ok labels x" "CHR '' '' \<notin> set (print_operand x)" "CHR '','' \<notin> set (print_operand x)"
    and v: "fst (operand_value labels x) < 2 ^ 16"
    and b: "snd (operand_value labels x) \<Longrightarrow> unat (fst (operand_value labels x)) < 8"
  shows "\<exists>vec w.
    lines_loop labels ((mn @ CHR '' '' # join '', '' [print_operand (Register a), print_operand x, print_operand (Register c)]) # rest) acc hs =
      lines_loop labels rest (acc @ [vec]) (hs \<or> mn = ''stop'') \<and>
    instr_to_machine_code p [vec] = Inr [w] \<and>
    (\<forall>s. unat (pc s) < length (program s) \<longrightarrow> length (program s) < 2 ^ 32 \<longrightarrow>
       program s ! unat (pc s) = w \<longrightarrow> length (regs s) = 8 \<longrightarrow>
       cycle p s =
         sbind (alu p code (regs s ! a)
                 (if snd (operand_value labels x) then regs s ! unat (fst (operand_value labels x))
                  else fst (operand_value labels x)))
           (\<lambda>r. Inr (True, s\<lparr>pc := pc s + 1, regs := (regs s)[c := r]\<rparr>)))"
proof -
  let ?ov = "operand_value labels x"
  let ?flag = "if snd ?ov then 0 else 1 :: u32"
  have a32: "a < 32" and c32: "c < 32" using a c by simp_all
  from three_operand_line [OF mn a32 c32 x v, of rest acc hs p]
  obtain w where l: "lines_loop labels ((mn @ CHR '' '' # join '', '' [print_operand (Register a), print_operand x, print_operand (Register c)]) # rest) acc hs =
      lines_loop labels rest (acc @ [[code, of_nat a, ?flag, fst ?ov, of_nat c]]) (hs \<or> mn = ''stop'')"
    and e: "encode_instr p [code, of_nat a, ?flag, fst ?ov, of_nat c] = Inr w"
    and d: "instr_num (decode w) = code" "r1 (decode w) = of_nat a" "imm2 (decode w) = ?flag"
      "o2 (decode w) = fst ?ov" "r2 (decode w) = of_nat c"
    by blast
  have ua: "unat (of_nat a :: u32) = a" and uc: "unat (of_nat c :: u32) = c"
    using a c by (simp_all add: unat_of_nat)
  have run: "cycle p s =
         sbind (alu p code (regs s ! a) (if snd ?ov then regs s ! unat (fst ?ov) else fst ?ov))
           (\<lambda>r. Inr (True, s\<lparr>pc := pc s + 1, regs := (regs s)[c := r]\<rparr>))"
    if "unat (pc s) < length (program s)" "length (program s) < 2 ^ 32"
       "program s ! unat (pc s) = w" "length (regs s) = 8" for s
    using cycle_alu [of s "decode w" p] that d op a c b ua uc by (auto split: if_splits)
  show ?thesis
    using l e run by (intro exI [of _ "[code, of_nat a, ?flag, fst ?ov, of_nat c]"] exI [of _ w]) simp
qed

section \<open>A jmp written with one operand\<close>

text \<open>C20: the spec's loop example writes \<open>jmp loop\<close> with one operand. The parser
  then builds the vector \<open>[15, a]\<close> for a label at address \<open>a\<close>, the encoder packs it
  in format B, and the machine reads that word as a register \<open>jmp\<close>: for \<open>a\<close> below 8 it
  writes the link (the \<open>jmp\<close>'s address plus two) into register \<open>a\<close> and jumps to the
  contents of register 0 after that write. The label's address is used as a register
  number and the jump goes to the label only by accident.\<close>

theorem jmp_one_operand_runs:
  assumes l: "labels l = Some a" "l \<noteq> []" "hd l \<noteq> CHR ''r''"
    "CHR '' '' \<notin> set l" "CHR '','' \<notin> set l" "str_last l \<noteq> Some CHR '':''"
    and a: "unat a < 8"
  shows "\<exists>w.
    lines_loop labels ((''jmp'' @ CHR '' '' # l) # rest) acc hs = lines_loop labels rest (acc @ [[15, a]]) hs \<and>
    instr_to_machine_code p [[15, a]] = Inr [w] \<and>
    (\<forall>s. unat (pc s) < length (program s) \<longrightarrow> length (program s) + 1 < 2 ^ 32 \<longrightarrow>
       program s ! unat (pc s) = w \<longrightarrow> length (regs s) = 8 \<longrightarrow>
       cycle p s = Inr (True, s\<lparr>regs := (regs s)[unat a := pc s + 2],
                               pc := (regs s)[unat a := pc s + 2] ! 0\<rparr>))"
proof -
  have sp: "split_instruction (''jmp'' @ CHR '' '' # l) = (''jmp'', Some [l])"
    using split_instruction_join [of "''jmp''" "[l]"] l(4,5) by simp
  have last: "str_last (''jmp'' @ CHR '' '' # l) = str_last l"
    using l(2) by (simp add: str_last_def)
  obtain c where c: "str_last l = Some c" "c \<noteq> CHR '':''"
    using l(2,6) by (auto simp: str_last_def)
  have parse: "parse_argument l labels = Inr (a, False)"
    by (rule parse_argument_label [of l labels a, OF l(2,3,1)])
  have loop: "lines_loop labels ((''jmp'' @ CHR '' '' # l) # rest) acc hs = lines_loop labels rest (acc @ [[15, a]]) hs"
    using sp last c parse by (simp add: unwrap_def instr_operands_def OP_CODES_def)
  have a3: "a < 2 ^ 3" using a by (simp add: word_less_nat_alt)
  from encode_jmp_one_operand [OF a3, of p] obtain w where e: "encode_instr p [15, a] = Inr w"
    and d: "instr_num (decode w) = 15" "imm1 (decode w) = 0" "o1 (decode w) = 0" "r2 (decode w) = a"
    by blast
  have run: "cycle p s = Inr (True, s\<lparr>regs := (regs s)[unat a := pc s + 2],
                               pc := (regs s)[unat a := pc s + 2] ! 0\<rparr>)"
    if "unat (pc s) < length (program s)" "length (program s) + 1 < 2 ^ 32"
       "program s ! unat (pc s) = w" "length (regs s) = 8" for s
  proof -
    have "unat (pc s + 1) + unat (1 :: u32) < 2 ^ 32"
      using that(1,2) by (simp add: unat_pc_Suc)
    then have link: "add_u32 p (pc s + 1) 1 = Inr (pc s + 2)"
      by (simp add: add_u32_no_overflow)
    show ?thesis
      using that a d link
      by (simp add: cycle_def fetch_ok eval_def eval_jmp_def Let_def)
  qed
  show ?thesis using loop e run by (intro exI [of _ w]) simp
qed

section \<open>The whole simulator\<close>


section \<open>Witnesses\<close>

theorem three_operand_line_runs_witness:
  "\<exists>vec w.
    lines_loop Map.empty [''add r1, r2, r3''] [] False = lines_loop Map.empty [] [vec] False \<and>
    instr_to_machine_code Debug [vec] = Inr [w] \<and>
    (\<forall>s. unat (pc s) < length (program s) \<longrightarrow> length (program s) < 2 ^ 32 \<longrightarrow>
       program s ! unat (pc s) = w \<longrightarrow> length (regs s) = 8 \<longrightarrow>
       cycle Debug s = sbind (alu Debug 1 (regs s ! 1) (regs s ! 2))
         (\<lambda>r. Inr (True, s\<lparr>pc := pc s + 1, regs := (regs s)[3 := r]\<rparr>)))"
proof -
  have h: "map_of OP_CODES ''add'' = Some 1" "operand_ok Map.empty (Register 2)"
    "CHR '' '' \<notin> set (print_operand (Register 2))" "CHR '','' \<notin> set (print_operand (Register 2))"
    "fst (operand_value Map.empty (Register 2)) < 2 ^ 16"
    using register_text [of 2] by (simp_all add: OP_CODES_def)
  have t: "''add'' @ CHR '' '' # join '', '' [print_operand (Register 1), print_operand (Register 2), print_operand (Register 3)] = ''add r1, r2, r3''"
    by (simp add: dec_string.simps)
  from three_operand_line_runs [OF h(1) _ _ _ _ h(2-5), of 1 3 "[]" "[]" False Debug]
  show ?thesis by (simp only: t) (simp del: lines_loop.simps)
qed

theorem jmp_one_operand_runs_witness:
  "\<exists>w.
    lines_loop [''loop'' \<mapsto> 1] [''jmp loop''] [] False = lines_loop [''loop'' \<mapsto> 1] [] [[15, 1]] False \<and>
    instr_to_machine_code Release [[15, 1]] = Inr [w] \<and>
    (\<forall>s. unat (pc s) < length (program s) \<longrightarrow> length (program s) + 1 < 2 ^ 32 \<longrightarrow>
       program s ! unat (pc s) = w \<longrightarrow> length (regs s) = 8 \<longrightarrow>
       cycle Release s = Inr (True, s\<lparr>regs := (regs s)[1 := pc s + 2],
                                   pc := (regs s)[1 := pc s + 2] ! 0\<rparr>))"
proof -
  have h: "[''loop'' \<mapsto> (1 :: u32)] ''loop'' = Some 1" "''loop'' \<noteq> []" "hd ''loop'' \<noteq> CHR ''r''"
    "CHR '' '' \<notin> set ''loop''" "CHR '','' \<notin> set ''loop''" "str_last ''loop'' \<noteq> Some CHR '':''"
    "unat (1 :: u32) < 8"
    by (simp_all add: str_last_def)
  from jmp_one_operand_runs [of "[''loop'' \<mapsto> 1]" "''loop''" 1 "[]" "[]" False Release, OF h]
  show ?thesis by simp
qed


end
